theory Spec2Isabelle
  imports Main
begin

section \<open>Modem power control driver (modem-power): data model\<close>

text \<open>
  The driver keeps all its state in one \<^verbatim>\<open>struct mpwr_dev\<close>. The model is a
  record of the fields the power state machine, the AT command engine, the line framer and
  the character device use. Effects on the outside world (GPIO lines, the regulator, the
  serial transport, sysfs notifications, kernel log warnings and errors, sleeps) are
  appended to a trace, in program order. Informational and debug log lines
  (\<^verbatim>\<open>dev_info\<close>, \<^verbatim>\<open>dev_dbg\<close>), wait-queue wake-ups and the PM wake-lock
  calls are not part of the state.
\<close>

datatype mpwr_flag =
    MPWR_F_POWERED
  | MPWR_F_POWER_CHANGE_INPROGRESS
  | MPWR_F_KILLSWITCHED
  | MPWR_F_GOT_WAKEUP
  | MPWR_F_RECEIVING_MSG
  | MPWR_F_GOT_PDN
  | MPWR_F_DUMB_POWERUP
  | MPWR_F_FASTBOOT_POWERUP
  | MPWR_F_OPEN
  | MPWR_F_OVERFLOW

datatype mpwr_req = MPWR_REQ_NONE | MPWR_REQ_RESET | MPWR_REQ_PWDN | MPWR_REQ_PWUP

datatype gpio =
    Enable_gpio | Reset_gpio | Pwrkey_gpio | Sleep_gpio | Dtr_gpio
  | Host_ready_gpio | Cts_gpio | Rts_gpio | Status_gpio | Wakeup_gpio

datatype gpio_mode = Gpio_input | Gpio_output bool

datatype event =
    Msleep nat
  | Gpiod_direction_output gpio bool
  | Gpiod_direction_input gpio
  | Gpiod_set_value gpio bool
  | Regulator_enable
  | Regulator_disable
  | Sysfs_notify string
  | Serdev_open
  | Serdev_close
  | Serdev_config
  | Serdev_write string
  | Serdev_wait_until_sent
  | Queue_work
  | Mod_timer nat
  | Dev_warn string
  | Dev_err string

text \<open>
  \<open>rcvbuf\<close> holds the valid part \<^verbatim>\<open>rcvbuf[0 .. rcvbuf_fill)\<close> of the receive
  buffer, \<open>msg\<close> the valid part \<^verbatim>\<open>msg[0 .. msg_len)\<close> of the response buffer
  (received lines, each followed by its NUL byte), \<open>kfifo\<close> the bytes queued for the
  reader of the character device, oldest first. \<open>wired g\<close> says that the GPIO descriptor
  \<open>g\<close> is not NULL; \<open>now\<close> is the clock read by \<^verbatim>\<open>ktime_get\<close>, in milliseconds.
\<close>

record mpwr_dev =
  flags :: "mpwr_flag set"
  serdev :: bool
  rcvbuf :: string
  msg :: string
  msg_ok :: bool
  kfifo :: string
  regulator_enabled :: bool
  wired :: "gpio \<Rightarrow> bool"
  gpio_state :: "gpio \<Rightarrow> gpio_mode"
  status_pwrkey_multiplexed :: bool
  last_request :: mpwr_req
  last_wakeup :: nat
  now :: nat
  trace :: "event list"

text \<open>
  \<^verbatim>\<open>struct mpwr_variant\<close>: the operations of a modem family are function pointers
  that may be NULL. A power operation returns the C return value and the new state.
\<close>

record 's mpwr_variant =
  power_up :: "('s \<Rightarrow> int \<times> 's) option"
  power_down :: "('s \<Rightarrow> int \<times> 's) option"
  reset :: "('s \<Rightarrow> int \<times> 's) option"
  recv_msg :: "('s \<Rightarrow> string \<Rightarrow> 's) option"
  monitor_wakeup :: bool

subsection \<open>Constants of the kernel headers\<close>

definition EIO :: int where "EIO = 5"
definition E2BIG :: int where "E2BIG = 7"
definition EWOULDBLOCK :: int where "EWOULDBLOCK = 11"
definition EFAULT :: int where "EFAULT = 14"
definition EBUSY :: int where "EBUSY = 16"
definition ENODEV :: int where "ENODEV = 19"
definition EINVAL :: int where "EINVAL = 22"
definition ETIMEDOUT :: int where "ETIMEDOUT = 110"
definition ERESTARTSYS :: int where "ERESTARTSYS = 512"

definition NUL :: char where "NUL = CHR 0x00"
definition CRLF :: string where "CRLF = [CHR 0x0D, CHR 0x0A]"

text \<open>Sizes of \<^verbatim>\<open>rcvbuf\<close>, \<^verbatim>\<open>msg\<close> and the kfifo in \<^verbatim>\<open>struct mpwr_dev\<close>.\<close>

definition RCVBUF_SIZE :: nat where "RCVBUF_SIZE = 4096"
definition MSG_SIZE :: nat where "MSG_SIZE = 4096"
definition KFIFO_SIZE :: nat where "KFIFO_SIZE = 4096"

subsection \<open>Atomic bit operations on \<^verbatim>\<open>flags\<close> and the trace\<close>

definition test_bit_flag :: "mpwr_flag \<Rightarrow> mpwr_dev \<Rightarrow> bool" where
  "test_bit_flag f d = (f \<in> flags d)"

definition set_bit_flag :: "mpwr_flag \<Rightarrow> mpwr_dev \<Rightarrow> mpwr_dev" where
  "set_bit_flag f d = d\<lparr>flags := insert f (flags d)\<rparr>"

definition clear_bit_flag :: "mpwr_flag \<Rightarrow> mpwr_dev \<Rightarrow> mpwr_dev" where
  "clear_bit_flag f d = d\<lparr>flags := flags d - {f}\<rparr>"

text \<open>Both return the old value of the bit, in one atomic step.\<close>

definition test_and_set_bit_flag :: "mpwr_flag \<Rightarrow> mpwr_dev \<Rightarrow> bool \<times> mpwr_dev" where
  "test_and_set_bit_flag f d = (f \<in> flags d, set_bit_flag f d)"

definition test_and_clear_bit_flag :: "mpwr_flag \<Rightarrow> mpwr_dev \<Rightarrow> bool \<times> mpwr_dev" where
  "test_and_clear_bit_flag f d = (f \<in> flags d, clear_bit_flag f d)"

definition emit :: "event \<Rightarrow> mpwr_dev \<Rightarrow> mpwr_dev" where
  "emit e d = d\<lparr>trace := trace d @ [e]\<rparr>"

definition msleep :: "nat \<Rightarrow> mpwr_dev \<Rightarrow> mpwr_dev" where
  "msleep n d = emit (Msleep n) (d\<lparr>now := now d + n\<rparr>)"

definition sysfs_notify :: "string \<Rightarrow> mpwr_dev \<Rightarrow> mpwr_dev" where
  "sysfs_notify attr d = emit (Sysfs_notify attr) d"

section \<open>AT command engine\<close>

subsection \<open>\<^verbatim>\<open>mpwr_serdev_receive_msg\<close>\<close>

text \<open>
  A received line is a C string: \<open>length\<close> is its \<^verbatim>\<open>strlen\<close> and the
  \<^verbatim>\<open>memcpy\<close> of \<^verbatim>\<open>len + 1\<close> bytes copies the line and its NUL byte. The
  variant's handler runs first, on every line; the engine looks at the line only while
  \<^verbatim>\<open>MPWR_F_RECEIVING_MSG\<close> is set.
\<close>

definition mpwr_serdev_receive_msg ::
  "mpwr_dev mpwr_variant \<Rightarrow> mpwr_dev \<Rightarrow> string \<Rightarrow> mpwr_dev" where
  "mpwr_serdev_receive_msg var d line =
     (let d1 = (case recv_msg var of Some h \<Rightarrow> h d line | None \<Rightarrow> d) in
      if \<not> test_bit_flag MPWR_F_RECEIVING_MSG d1 then d1
      else if line = ''OK'' then
        (clear_bit_flag MPWR_F_RECEIVING_MSG d1)\<lparr>msg_ok := True\<rparr>
      else if line = ''ERROR'' then
        (clear_bit_flag MPWR_F_RECEIVING_MSG d1)\<lparr>msg_ok := False\<rparr>
      else if length (msg d1) + length line + 1 > MSG_SIZE then
        emit (Dev_warn ''message buffer overflow, ignoring message'') d1
      else d1\<lparr>msg := msg d1 @ line @ [NUL]\<rparr>)"

subsection \<open>\<^verbatim>\<open>mpwr_serdev_send_msg\<close>\<close>

text \<open>
  \<open>wr\<close> is what \<^verbatim>\<open>serdev_device_write\<close> returns: the number of bytes written, or a
  negative error. The command and its terminator are formatted into a buffer of 128 bytes.
\<close>

definition mpwr_serdev_send_msg :: "mpwr_dev \<Rightarrow> string \<Rightarrow> int \<Rightarrow> int \<times> mpwr_dev" where
  "mpwr_serdev_send_msg d cmd wr =
     (if \<not> serdev d then (- ENODEV, d)
      else let len = int (length cmd) + 2 in
        if len \<ge> 128 then (- E2BIG, d)
        else let d1 = emit (Serdev_write (cmd @ CRLF)) d in
          if wr < len then (- EIO, d1)
          else (0, emit Serdev_wait_until_sent d1))"

subsection \<open>\<^verbatim>\<open>__mpwr_serdev_at_cmd\<close>\<close>

text \<open>
  A C name that starts with two underscores is written with the prefix \<open>uu_\<close>.

  What the world does during one command: the return value of the transport write, the
  lines the receive callback delivers while the caller waits (in arrival order), and
  whether a signal ends a wait that no terminal line has ended.
\<close>

record at_env =
  env_write :: int
  env_lines :: "string list"
  env_signal :: bool

text \<open>
  The wait \<^verbatim>\<open>wait_event_interruptible_timeout(wait, !test_bit(MPWR_F_RECEIVING_MSG), t)\<close>:
  lines are handed to \<^verbatim>\<open>mpwr_serdev_receive_msg\<close> one by one until the flag is clear
  (the caller wakes up) or no line is left before the timeout.
\<close>

fun wait_reply :: "mpwr_dev mpwr_variant \<Rightarrow> mpwr_dev \<Rightarrow> string list \<Rightarrow> mpwr_dev" where
  "wait_reply var d [] = d"
| "wait_reply var d (l # ls) =
     (if \<not> test_bit_flag MPWR_F_RECEIVING_MSG d then d
      else wait_reply var (mpwr_serdev_receive_msg var d l) ls)"

text \<open>
  The part of the command after the flag has been taken: clear the response, send, wait.
\<close>

definition at_cmd_run ::
  "mpwr_dev mpwr_variant \<Rightarrow> mpwr_dev \<Rightarrow> string \<Rightarrow> bool \<Rightarrow> bool \<Rightarrow> at_env \<Rightarrow> int \<times> mpwr_dev" where
  "at_cmd_run var d cmd report_error report_timeout env =
     (let d2 = d\<lparr>msg := []\<rparr>;
          (ret, d3) = mpwr_serdev_send_msg d2 cmd (env_write env) in
      if ret \<noteq> 0 then
        (ret, emit (Dev_err ''AT command can't be sent'')
                (clear_bit_flag MPWR_F_RECEIVING_MSG d3))
      else
        let d4 = wait_reply var d3 (env_lines env);
            w = (if \<not> test_bit_flag MPWR_F_RECEIVING_MSG d4 then 1
                 else if env_signal env then - ERESTARTSYS else 0) in
        if w \<le> 0 then
          let d5 = clear_bit_flag MPWR_F_RECEIVING_MSG d4;
              d6 = (if report_timeout then emit (Dev_err ''AT command timed out'') d5 else d5) in
          (if w \<noteq> 0 then w else - ETIMEDOUT, d6)
        else if \<not> msg_ok d4 then
          (- EINVAL,
           if report_error then emit (Dev_err ''AT command returned ERROR'') d4 else d4)
        else (0, d4))"

definition uu_mpwr_serdev_at_cmd ::
  "mpwr_dev mpwr_variant \<Rightarrow> mpwr_dev \<Rightarrow> string \<Rightarrow> int \<Rightarrow> bool \<Rightarrow> bool \<Rightarrow> at_env \<Rightarrow> int \<times> mpwr_dev" where
  "uu_mpwr_serdev_at_cmd var d cmd timeout_ms report_error report_timeout env =
     (let (busy, d1) = test_and_set_bit_flag MPWR_F_RECEIVING_MSG d in
      if busy then (- EBUSY, d1)
      else at_cmd_run var d1 cmd report_error report_timeout env)"

definition mpwr_serdev_at_cmd ::
  "mpwr_dev mpwr_variant \<Rightarrow> mpwr_dev \<Rightarrow> string \<Rightarrow> int \<Rightarrow> at_env \<Rightarrow> int \<times> mpwr_dev" where
  "mpwr_serdev_at_cmd var d cmd timeout_ms env =
     uu_mpwr_serdev_at_cmd var d cmd timeout_ms True True env"

subsection \<open>\<^verbatim>\<open>__mpwr_serdev_at_cmd_with_retry\<close>\<close>

text \<open>
  \<open>envs i\<close> is what the world does during attempt number \<open>i\<close> (from 0). The loop
  \<^verbatim>\<open>while (tries-- > 0)\<close> is a recursion on the tries left; \<open>ret\<close> is the
  last return value, surfaced when the tries are used up.
\<close>

fun at_cmd_retry_loop ::
  "mpwr_dev mpwr_variant \<Rightarrow> mpwr_dev \<Rightarrow> string \<Rightarrow> int \<Rightarrow> nat \<Rightarrow> bool \<Rightarrow> (nat \<Rightarrow> at_env) \<Rightarrow> nat
     \<Rightarrow> int \<Rightarrow> int \<times> mpwr_dev" where
  "at_cmd_retry_loop var d cmd timeout_ms 0 ignore_timeout envs i ret =
     (ret, emit (Dev_err ''AT command returned ERROR'') d)"
| "at_cmd_retry_loop var d cmd timeout_ms (Suc n) ignore_timeout envs i ret =
     (let (r, d1) = uu_mpwr_serdev_at_cmd var d cmd timeout_ms False (\<not> ignore_timeout) (envs i) in
      if r \<noteq> - EINVAL \<and> (\<not> ignore_timeout \<or> r \<noteq> - ETIMEDOUT) then (r, d1)
      else at_cmd_retry_loop var (if r \<noteq> - ETIMEDOUT then msleep 1000 d1 else d1)
             cmd timeout_ms n ignore_timeout envs (Suc i) r)"

definition uu_mpwr_serdev_at_cmd_with_retry ::
  "mpwr_dev mpwr_variant \<Rightarrow> mpwr_dev \<Rightarrow> string \<Rightarrow> int \<Rightarrow> int \<Rightarrow> bool \<Rightarrow> (nat \<Rightarrow> at_env)
     \<Rightarrow> int \<times> mpwr_dev" where
  "uu_mpwr_serdev_at_cmd_with_retry var d cmd timeout_ms tries ignore_timeout envs =
     at_cmd_retry_loop var d cmd timeout_ms (nat (if tries < 1 then 1 else tries))
       ignore_timeout envs 0 0"

definition mpwr_serdev_at_cmd_with_retry ::
  "mpwr_dev mpwr_variant \<Rightarrow> mpwr_dev \<Rightarrow> string \<Rightarrow> int \<Rightarrow> int \<Rightarrow> (nat \<Rightarrow> at_env) \<Rightarrow> int \<times> mpwr_dev" where
  "mpwr_serdev_at_cmd_with_retry var d cmd timeout_ms tries envs =
     uu_mpwr_serdev_at_cmd_with_retry var d cmd timeout_ms tries False envs"

definition mpwr_serdev_at_cmd_with_retry_ignore_timeout ::
  "mpwr_dev mpwr_variant \<Rightarrow> mpwr_dev \<Rightarrow> string \<Rightarrow> int \<Rightarrow> int \<Rightarrow> (nat \<Rightarrow> at_env) \<Rightarrow> int \<times> mpwr_dev" where
  "mpwr_serdev_at_cmd_with_retry_ignore_timeout var d cmd timeout_ms tries envs =
     uu_mpwr_serdev_at_cmd_with_retry var d cmd timeout_ms tries True envs"

subsection \<open>Reading the response buffer\<close>

text \<open>
  The driver reads the response with the loop
  \<^verbatim>\<open>for (off = 0; off < msg_len; off += strlen(msg + off) + 1)\<close>, which visits one
  C string per step. \<open>msg_lines\<close> is the list of the strings visited; \<open>fuel\<close> bounds the
  steps, and \<open>length b\<close> steps are enough since each step consumes a byte.
\<close>

fun msg_lines_from :: "nat \<Rightarrow> string \<Rightarrow> string list" where
  "msg_lines_from 0 b = []"
| "msg_lines_from (Suc fuel) b =
     (if b = [] then []
      else takeWhile (\<lambda>c. c \<noteq> NUL) b
           # msg_lines_from fuel (drop (length (takeWhile (\<lambda>c. c \<noteq> NUL) b) + 1) b))"

definition msg_lines :: "mpwr_dev \<Rightarrow> string list" where
  "msg_lines d = msg_lines_from (length (msg d)) (msg d)"

section \<open>Event dispatcher of the eg25 variant and the character device\<close>

subsection \<open>The kfifo\<close>

text \<open>
  Modelled from the spec: the kfifo of \<^verbatim>\<open>linux/kfifo.h\<close> is not among the sources.
  It is the bounded FIFO of the event queue: at most 4096 bytes are buffered, bytes leave in
  the order they entered, \<^verbatim>\<open>kfifo_in\<close> stores what fits, \<^verbatim>\<open>kfifo_to_user\<close>
  hands out at most \<open>len\<close> bytes from the front.
\<close>

definition kfifo_avail :: "string \<Rightarrow> nat" where
  "kfifo_avail q = KFIFO_SIZE - length q"

definition kfifo_in :: "string \<Rightarrow> string \<Rightarrow> string" where
  "kfifo_in q xs = q @ take (kfifo_avail q) xs"

definition kfifo_is_empty :: "string \<Rightarrow> bool" where
  "kfifo_is_empty q = (q = [])"

definition kfifo_to_user :: "string \<Rightarrow> nat \<Rightarrow> string \<times> string" where
  "kfifo_to_user q len = (take len q, drop len q)"

subsection \<open>\<^verbatim>\<open>mpwr_eg25_receive_msg\<close>\<close>

definition mpwr_eg25_receive_msg :: "mpwr_dev \<Rightarrow> string \<Rightarrow> mpwr_dev" where
  "mpwr_eg25_receive_msg d line =
     (if line = ''POWERED DOWN'' then set_bit_flag MPWR_F_GOT_PDN d
      else if line = ''RDY'' then d
      else if \<not> test_bit_flag MPWR_F_OPEN d then d
      else if length line + 1 > kfifo_avail (kfifo d) then
        snd (test_and_set_bit_flag MPWR_F_OVERFLOW d)
      else d\<lparr>kfifo := kfifo_in (kfifo_in (kfifo d) line) [CHR 0x0A]\<rparr>)"

subsection \<open>\<^verbatim>\<open>mpwr_open\<close>, \<^verbatim>\<open>mpwr_release\<close>, \<^verbatim>\<open>mpwr_read\<close>\<close>

definition mpwr_open :: "mpwr_dev \<Rightarrow> int \<times> mpwr_dev" where
  "mpwr_open d =
     (let (was_open, d1) = test_and_set_bit_flag MPWR_F_OPEN d in
      if was_open then (- EBUSY, d1) else (0, d1))"

definition mpwr_release :: "mpwr_dev \<Rightarrow> int \<times> mpwr_dev" where
  "mpwr_release d = (0, clear_bit_flag MPWR_F_OPEN d)"

text \<open>
  A read returns an error, or the bytes copied to the user buffer (the return value is
  their number), or it sleeps: \<^verbatim>\<open>wait_event_interruptible\<close> does not return while
  the queue is empty, no overflow is latched and no signal is pending. \<open>fault\<close> says that
  the user buffer is not writable, so that \<^verbatim>\<open>copy_to_user\<close> and
  \<^verbatim>\<open>kfifo_to_user\<close> copy nothing and fail.

  The data path ends with \<^verbatim>\<open>return ret ? ret : copied;\<close> where \<^verbatim>\<open>ret\<close> is an
  \<^verbatim>\<open>int\<close> and \<^verbatim>\<open>copied\<close> an \<^verbatim>\<open>unsigned int\<close>: the conditional expression
  has type \<^verbatim>\<open>unsigned int\<close>, so both operands are taken modulo \<open>2 ^ 32\<close>
  (\<open>to_unsigned_int\<close>) before the value is widened to the 64-bit \<^verbatim>\<open>ssize_t\<close> of
  this arm64 tree. The \<^verbatim>\<open>-EFAULT\<close> of \<^verbatim>\<open>kfifo_to_user\<close> therefore reaches the
  caller as the positive value 4294967282 although no byte was copied: \<open>Read_count\<close> is a
  non-negative return value that is not the number of bytes delivered. The returns of the
  overflow path and of the wait are plain \<^verbatim>\<open>int\<close> values and keep their sign.
\<close>

datatype read_result = Read_error int | Read_data string | Read_count int | Read_sleeps

definition to_unsigned_int :: "int \<Rightarrow> int" where
  "to_unsigned_int x = x mod 2 ^ 32"

definition OVERFLOW_MARKER :: string where
  "OVERFLOW_MARKER = ''OVERFLOW'' @ [CHR 0x0A]"

definition mpwr_read ::
  "mpwr_dev \<Rightarrow> bool \<Rightarrow> nat \<Rightarrow> bool \<Rightarrow> bool \<Rightarrow> read_result \<times> mpwr_dev" where
  "mpwr_read d non_blocking len fault signal =
     (if non_blocking \<and> kfifo_is_empty (kfifo d) then (Read_error (- EWOULDBLOCK), d)
      else if kfifo_is_empty (kfifo d) \<and> \<not> test_bit_flag MPWR_F_OVERFLOW d then
        (if signal then (Read_error (- ERESTARTSYS), d) else (Read_sleeps, d))
      else
        let (ovf, d1) = test_and_clear_bit_flag MPWR_F_OVERFLOW d in
        if ovf then
          (if len < 9 then (Read_error (- E2BIG), d1)
           else if fault then (Read_error (- EFAULT), d1)
           else (Read_data OVERFLOW_MARKER, d1))
        else if fault then (Read_count (to_unsigned_int (- EFAULT)), d1)
        else let (out, q) = kfifo_to_user (kfifo d1) len in
          (Read_data out, d1\<lparr>kfifo := q\<rparr>))"

section \<open>Line framer\<close>

text \<open>
  Modelled from the spec: \<^verbatim>\<open>strnstr\<close> of \<^verbatim>\<open>lib/string.c\<close> is not among the
  sources. The buffer is scanned for the line terminator: the result is the offset of the
  first occurrence of \<open>pat\<close> that lies within the first \<open>len\<close> bytes of \<open>s\<close>, if
  there is one (the C function returns a pointer to it, or NULL).
\<close>

fun find_first :: "string \<Rightarrow> string \<Rightarrow> nat option" where
  "find_first pat [] = (if pat = [] then Some 0 else None)"
| "find_first pat (c # cs) =
     (if take (length pat) (c # cs) = pat then Some 0
      else map_option Suc (find_first pat cs))"

definition strnstr :: "string \<Rightarrow> string \<Rightarrow> nat \<Rightarrow> nat option" where
  "strnstr s pat len = find_first pat (take len s)"

text \<open>
  The line handed to \<^verbatim>\<open>mpwr_serdev_receive_msg\<close> is the C string at the start of the
  buffer after \<^verbatim>\<open>*p = 0\<close>: the bytes before the terminator, up to the first NUL byte
  among them.
\<close>

definition cstr :: "string \<Rightarrow> string" where
  "cstr s = takeWhile (\<lambda>c. c \<noteq> NUL) s"

text \<open>
  The loop \<^verbatim>\<open>while (true)\<close> of \<^verbatim>\<open>mpwr_serdev_receive_buf\<close>. The handler called
  for a line is a function pointer that receives the whole device, so the loop is a partial
  function: \<open>None\<close> stands for a run that does not end.
\<close>

partial_function (option) rcvbuf_scan :: "mpwr_dev mpwr_variant \<Rightarrow> mpwr_dev \<Rightarrow> mpwr_dev option" where
  "rcvbuf_scan var d =
     (case strnstr (rcvbuf d) CRLF (length (rcvbuf d)) of
        Some p \<Rightarrow>
          let d1 = (if p > 0 then mpwr_serdev_receive_msg var d (cstr (take p (rcvbuf d)))
                    else d) in
          rcvbuf_scan var (d1\<lparr>rcvbuf := drop (p + 2) (rcvbuf d1)\<rparr>)
      | None \<Rightarrow>
          if RCVBUF_SIZE - length (rcvbuf d) = 0 then
            Some (emit (Dev_warn ''rcvbuf overflow'') (d\<lparr>rcvbuf := []\<rparr>))
          else Some d)"

declare rcvbuf_scan.simps [code]

definition mpwr_serdev_receive_buf ::
  "mpwr_dev mpwr_variant \<Rightarrow> mpwr_dev \<Rightarrow> string \<Rightarrow> (nat \<times> mpwr_dev) option" where
  "mpwr_serdev_receive_buf var d buf =
     (let avail = RCVBUF_SIZE - length (rcvbuf d);
          count = (if avail < length buf then avail else length buf);
          d1 = (if avail > 0 then d\<lparr>rcvbuf := rcvbuf d @ take count buf\<rparr> else d) in
      map_option (\<lambda>d2. (count, d2)) (rcvbuf_scan var d1))"

text \<open>
  The framing as the specification words it, for comparison with the loop: the lines of a
  buffer are its segments that end with the terminator, in order, each without the
  terminator; what follows the last terminator is the unterminated rest. \<open>cur\<close> is the
  part of the current line already passed.
\<close>

fun split_crlf :: "string \<Rightarrow> string \<Rightarrow> string list \<times> string" where
  "split_crlf cur [] = ([], cur)"
| "split_crlf cur [c] = ([], cur @ [c])"
| "split_crlf cur (c1 # c2 # cs) =
     (if [c1, c2] = CRLF then (cur # fst (split_crlf [] cs), snd (split_crlf [] cs))
      else split_crlf (cur @ [c1]) (c2 # cs))"

definition has_crlf :: "string \<Rightarrow> bool" where
  "has_crlf s = (find_first CRLF s \<noteq> None)"

section \<open>Power sequencer\<close>

subsection \<open>GPIO and regulator collaborators\<close>

text \<open>
  Modelled from the spec: the GPIO consumer interface is not among the sources. A line is
  an un-driven input or an output with a level; an operation on a descriptor that is NULL
  does nothing; \<^verbatim>\<open>gpiod_set_value\<close> changes the level of an output.
\<close>

definition gpiod_direction_output :: "gpio \<Rightarrow> bool \<Rightarrow> mpwr_dev \<Rightarrow> mpwr_dev" where
  "gpiod_direction_output g v d =
     (if wired d g then
        emit (Gpiod_direction_output g v) (d\<lparr>gpio_state := (gpio_state d)(g := Gpio_output v)\<rparr>)
      else d)"

definition gpiod_direction_input :: "gpio \<Rightarrow> mpwr_dev \<Rightarrow> mpwr_dev" where
  "gpiod_direction_input g d =
     (if wired d g then
        emit (Gpiod_direction_input g) (d\<lparr>gpio_state := (gpio_state d)(g := Gpio_input)\<rparr>)
      else d)"

definition gpiod_set_value :: "gpio \<Rightarrow> bool \<Rightarrow> mpwr_dev \<Rightarrow> mpwr_dev" where
  "gpiod_set_value g v d =
     (if wired d g then
        emit (Gpiod_set_value g v)
          (d\<lparr>gpio_state := (gpio_state d)
                (g := (case gpio_state d g of Gpio_output _ \<Rightarrow> Gpio_output v
                       | Gpio_input \<Rightarrow> Gpio_input))\<rparr>)
      else d)"

text \<open>
  Modelled from the spec: the regulator interface is not among the sources. The supply is
  on or off; \<^verbatim>\<open>regulator_enable\<close> returns \<open>r\<close> and switches it on unless \<open>r\<close> is
  negative, \<^verbatim>\<open>regulator_disable\<close> switches it off.
\<close>

definition regulator_enable :: "int \<Rightarrow> mpwr_dev \<Rightarrow> mpwr_dev" where
  "regulator_enable r d =
     emit Regulator_enable (if r < 0 then d else d\<lparr>regulator_enabled := True\<rparr>)"

definition regulator_disable :: "mpwr_dev \<Rightarrow> mpwr_dev" where
  "regulator_disable d = emit Regulator_disable (d\<lparr>regulator_enabled := False\<rparr>)"

subsection \<open>\<^verbatim>\<open>mpwr_eg25_power_up\<close>\<close>

text \<open>
  What the world does during a power-up: the return values of \<^verbatim>\<open>regulator_enable\<close>,
  \<^verbatim>\<open>serdev_device_open\<close> and \<^verbatim>\<open>serdev_device_set_parity\<close>, and the levels
  \<^verbatim>\<open>gpiod_get_value\<close> reads on the wakeup and status lines at a given time. The AT
  dialogue between the handshake \<^verbatim>\<open>AT&FE0\<close> and \<^verbatim>\<open>AT+QSCLK=1\<close> (firmware version,
  QDAI and QCFG reconciliation, URC port) is the parameter \<open>env_at_dialogue\<close>: it returns
  whether the sequence goes on to \<^verbatim>\<open>powered_up\<close> (\<open>True\<close>) or leaves through
  \<^verbatim>\<open>err_shutdown\<close>. What is proved about the sequencer holds for every dialogue.
\<close>

record pwr_env =
  env_regulator_enable :: int
  env_wakeup :: "nat \<Rightarrow> bool"
  env_status :: "nat \<Rightarrow> bool"
  env_serdev_open :: int
  env_set_parity :: int
  env_at_dialogue :: "mpwr_dev \<Rightarrow> bool \<times> mpwr_dev"

definition mpwr_eg25_get_pwrkey_gpio :: "mpwr_dev \<Rightarrow> gpio" where
  "mpwr_eg25_get_pwrkey_gpio d = (if status_pwrkey_multiplexed d then Status_gpio else Pwrkey_gpio)"

text \<open>
  The loop \<^verbatim>\<open>while (ktime_ms_delta(ktime_get(), start) < 10000)\<close>: the clock advances
  with each \<^verbatim>\<open>msleep(50)\<close>. The result is \<open>(wakeup_ok, status_ok)\<close>.
\<close>

function eg25_wait_powerup ::
  "pwr_env \<Rightarrow> nat \<Rightarrow> bool \<Rightarrow> bool \<Rightarrow> mpwr_dev \<Rightarrow> (bool \<times> bool) \<times> mpwr_dev" where
  "eg25_wait_powerup env start wakeup_ok status_ok d =
     (if int (now d) - int start < 10000 then
        let w = (if \<not> wakeup_ok \<and> wired d Wakeup_gpio \<and> env_wakeup env (now d) then True
                 else wakeup_ok);
            s = (if \<not> status_ok \<and> wired d Status_gpio \<and> \<not> env_status env (now d) then True
                 else status_ok) in
        if w \<and> s then ((w, s), d)
        else eg25_wait_powerup env start w s (msleep 50 d)
      else ((wakeup_ok, status_ok), d))"
  by pat_completeness auto
termination
  by (relation "measure (\<lambda>(env, start, w, s, d). nat (int start + 10000 - int (now d)))")
     (auto simp: msleep_def emit_def)

text \<open>The labels \<^verbatim>\<open>err_shutdown_noclose\<close> and \<^verbatim>\<open>err_shutdown\<close>.\<close>

definition eg25_err_shutdown_noclose :: "mpwr_dev \<Rightarrow> int \<times> mpwr_dev" where
  "eg25_err_shutdown_noclose d =
     (let pwrkey_gpio = mpwr_eg25_get_pwrkey_gpio d;
          d1 = emit (Dev_warn ''Forcibly cutting off power, data loss may occur.'') d;
          d2 = gpiod_direction_input Enable_gpio d1;
          d3 = gpiod_direction_input Reset_gpio d2;
          d4 = gpiod_direction_input Sleep_gpio d3;
          d5 = gpiod_direction_input pwrkey_gpio d4;
          d6 = gpiod_direction_input Host_ready_gpio d5;
          d7 = gpiod_direction_input Dtr_gpio d6 in
      (- ENODEV, regulator_disable d7))"

definition eg25_err_shutdown :: "mpwr_dev \<Rightarrow> int \<times> mpwr_dev" where
  "eg25_err_shutdown d = eg25_err_shutdown_noclose (emit Serdev_close d)"

text \<open>From the label \<^verbatim>\<open>open_serdev\<close> to the end of the function.\<close>

definition eg25_open_serdev :: "pwr_env \<Rightarrow> bool \<Rightarrow> mpwr_dev \<Rightarrow> int \<times> mpwr_dev" where
  "eg25_open_serdev env fastboot d =
     (let d1 = emit Serdev_open d in
      if env_serdev_open env \<noteq> 0 then
        eg25_err_shutdown_noclose (emit (Dev_err ''error opening serdev'') d1)
      else
        let d2 = emit Serdev_config d1 in
        if env_set_parity env \<noteq> 0 then
          eg25_err_shutdown (emit (Dev_err ''error setting serdev parity'') d2)
        else if test_bit_flag MPWR_F_DUMB_POWERUP d2 \<or> fastboot then
          (0, gpiod_direction_output Dtr_gpio True d2)
        else
          let (ok, d3) = env_at_dialogue env d2 in
          if ok then (0, gpiod_direction_output Dtr_gpio True d3)
          else eg25_err_shutdown d3)"

text \<open>
  The block \<^verbatim>\<open>Drive default gpio signals during powerup\<close>; the enable line is
  driven to 1 for a normal power-up and to 0 for fastboot.
\<close>

definition eg25_drive_defaults :: "bool \<Rightarrow> mpwr_dev \<Rightarrow> mpwr_dev" where
  "eg25_drive_defaults fastboot d =
     (let pwrkey_gpio = mpwr_eg25_get_pwrkey_gpio d;
          d4 = gpiod_direction_output Host_ready_gpio True d;
          d5 = gpiod_direction_output Enable_gpio (\<not> fastboot) d4;
          d6 = gpiod_direction_output Sleep_gpio False d5;
          d7 = gpiod_direction_output Reset_gpio False d6;
          d8 = gpiod_direction_output pwrkey_gpio False d7 in
      gpiod_direction_output Dtr_gpio False d8)"

text \<open>The wait of 50 ms for the supply and the 200 ms pulse on the power key.\<close>

definition eg25_pwrkey_pulse :: "mpwr_dev \<Rightarrow> mpwr_dev" where
  "eg25_pwrkey_pulse d =
     (let pwrkey_gpio = mpwr_eg25_get_pwrkey_gpio d;
          d10 = msleep 50 d;
          d11 = gpiod_set_value pwrkey_gpio True d10;
          d12 = msleep 200 d11 in
      gpiod_set_value pwrkey_gpio False d12)"

definition mpwr_eg25_power_up :: "pwr_env \<Rightarrow> mpwr_dev \<Rightarrow> int \<times> mpwr_dev" where
  "mpwr_eg25_power_up env d =
     (let (fastboot, d1) = test_and_clear_bit_flag MPWR_F_FASTBOOT_POWERUP d;
          d2 = (if regulator_enabled d1 then
                  emit (Dev_warn ''regulator was already enabled during powerup'') d1
                else d1);
          ret = env_regulator_enable env;
          d3 = regulator_enable ret d2 in
      if ret < 0 then (ret, emit (Dev_err ''can't enable power supply'') d3)
      else
        let d9 = eg25_drive_defaults fastboot d3;
            d13 = eg25_pwrkey_pulse d9 in
        if fastboot then eg25_open_serdev env fastboot d13
        else
          let d14 = gpiod_direction_input Status_gpio d13;
              status_ok = (if wired d14 Status_gpio then False else True);
              wakeup_ok = (if wired d14 Wakeup_gpio then False else True);
              ((w, s), d15) = eg25_wait_powerup env (now d14) wakeup_ok status_ok d14 in
          if \<not> w then
            let d16 = emit (Dev_err ''The modem looks kill-switched'') d15;
                (was_set, d17) = test_and_set_bit_flag MPWR_F_KILLSWITCHED d16;
                d18 = (if \<not> was_set then sysfs_notify ''killswitched'' d17 else d17) in
            eg25_err_shutdown_noclose d18
          else if \<not> s then
            eg25_err_shutdown_noclose
              (emit (Dev_err ''The modem didn't report powerup success in time'') d15)
          else
            let (was_set, d16) = test_and_clear_bit_flag MPWR_F_KILLSWITCHED d15;
                d17 = (if was_set then sysfs_notify ''killswitched'' d16 else d16) in
            eg25_open_serdev env fastboot d17)"

text \<open>
  \<^verbatim>\<open>mpwr_eg25_variant\<close>. The power-down sequence of the variant is the parameter
  \<open>pdn\<close>; the variant has no reset operation.
\<close>

definition mpwr_eg25_variant ::
  "pwr_env \<Rightarrow> (mpwr_dev \<Rightarrow> int \<times> mpwr_dev) \<Rightarrow> mpwr_dev mpwr_variant" where
  "mpwr_eg25_variant env pdn =
     \<lparr>power_up = Some (mpwr_eg25_power_up env), power_down = Some pdn, reset = None,
      recv_msg = Some mpwr_eg25_receive_msg, monitor_wakeup = True\<rparr>"

subsection \<open>Generic helpers, the work handler and the watchdog timer\<close>

definition mpwr_reset :: "mpwr_dev mpwr_variant \<Rightarrow> mpwr_dev \<Rightarrow> mpwr_dev" where
  "mpwr_reset var d =
     (if \<not> test_bit_flag MPWR_F_POWERED d then
        emit (Dev_err ''reset requested but device is not enabled'') d
      else if \<not> wired d Reset_gpio then
        emit (Dev_err ''reset is not configured for this device'') d
      else case reset var of
        None \<Rightarrow> emit (Dev_err ''reset requested but not implemented'') d
      | Some f \<Rightarrow>
          let (ret, d1) = f d in
          if ret \<noteq> 0 then emit (Dev_err ''reset failed'') d1 else d1)"

definition mpwr_power_down :: "mpwr_dev mpwr_variant \<Rightarrow> mpwr_dev \<Rightarrow> mpwr_dev" where
  "mpwr_power_down var d =
     (if \<not> test_bit_flag MPWR_F_POWERED d then d
      else case power_down var of
        None \<Rightarrow> emit (Dev_err ''power down requested but not implemented'') d
      | Some f \<Rightarrow>
          let (ret, d1) = f d in
          if ret \<noteq> 0 then emit (Dev_err ''power down failed'') d1
          else sysfs_notify ''powered'' (clear_bit_flag MPWR_F_POWERED d1))"

definition mpwr_power_up :: "mpwr_dev mpwr_variant \<Rightarrow> mpwr_dev \<Rightarrow> mpwr_dev" where
  "mpwr_power_up var d =
     (if test_bit_flag MPWR_F_POWERED d then d
      else case power_up var of
        None \<Rightarrow> emit (Dev_err ''power up requested but not implemented'') d
      | Some f \<Rightarrow>
          let (ret, d1) = f d in
          if ret \<noteq> 0 then emit (Dev_err ''power up failed'') d1
          else sysfs_notify ''powered'' (set_bit_flag MPWR_F_POWERED d1))"

definition mpwr_work_handler :: "mpwr_dev mpwr_variant \<Rightarrow> mpwr_dev \<Rightarrow> mpwr_dev" where
  "mpwr_work_handler var d =
     (let request = last_request d;
          d1 = d\<lparr>last_request := MPWR_REQ_NONE\<rparr>;
          d2 = (if request = MPWR_REQ_RESET then mpwr_reset var d1
                else if request = MPWR_REQ_PWDN then mpwr_power_down var d1
                else if request = MPWR_REQ_PWUP then mpwr_power_up var d1
                else d1) in
      sysfs_notify ''is_busy'' (clear_bit_flag MPWR_F_POWER_CHANGE_INPROGRESS d2))"

definition mpwr_request_power_change :: "mpwr_dev \<Rightarrow> mpwr_req \<Rightarrow> mpwr_dev" where
  "mpwr_request_power_change d request =
     (let d1 = set_bit_flag MPWR_F_POWER_CHANGE_INPROGRESS d;
          d2 = sysfs_notify ''is_busy'' d1;
          d3 = d2\<lparr>last_request := request\<rparr> in
      emit Queue_work d3)"

text \<open>The interrupt handler, for the wakeup interrupt.\<close>

definition mpwr_gpio_isr :: "mpwr_dev \<Rightarrow> mpwr_dev" where
  "mpwr_gpio_isr d = (set_bit_flag MPWR_F_GOT_WAKEUP d)\<lparr>last_wakeup := now d\<rparr>"

text \<open>
  \<open>level\<close> is what \<^verbatim>\<open>gpiod_get_value\<close> reads on the wakeup line at this tick.
\<close>

definition mpwr_wd_timer_fn :: "mpwr_dev mpwr_variant \<Rightarrow> bool \<Rightarrow> mpwr_dev \<Rightarrow> mpwr_dev" where
  "mpwr_wd_timer_fn var level d =
     (if \<not> monitor_wakeup var \<or> \<not> test_bit_flag MPWR_F_POWERED d then d
      else
        let d1 =
          (if \<not> (wired d Wakeup_gpio \<and> level) then
             (if int (now d) - int (last_wakeup d) > 5000 then
                let (was_set, d2) = test_and_set_bit_flag MPWR_F_KILLSWITCHED d;
                    d3 = (if \<not> was_set then sysfs_notify ''killswitched'' d2 else d2) in
                emit (Dev_warn ''modem looks killswitched at runtime!'') d3
              else d)
           else d) in
        emit (Mod_timer 1000) d1)"

section \<open>Vocabulary of the properties\<close>

subsection \<open>Command engine\<close>

definition is_terminal :: "string \<Rightarrow> bool" where
  "is_terminal l = (l = ''OK'' \<or> l = ''ERROR'')"

text \<open>
  The response as the specification words it, for comparison with the buffer the engine
  fills: of the lines that arrive, in order, a line is kept when its bytes and one
  terminating byte still fit into what is left of the buffer, and is dropped otherwise;
  \<open>used\<close> is the number of bytes taken so far.
\<close>

fun accumulated :: "nat \<Rightarrow> string list \<Rightarrow> string list" where
  "accumulated used [] = []"
| "accumulated used (l # ls) =
     (if used + length l + 1 > MSG_SIZE then accumulated used ls
      else l # accumulated (used + length l + 1) ls)"

definition pack :: "string list \<Rightarrow> string" where
  "pack ls = concat (map (\<lambda>l. l @ [NUL]) ls)"

definition msg_overflow_warning :: event where
  "msg_overflow_warning = Dev_warn ''message buffer overflow, ignoring message''"

text \<open>The events that show an attempt (a write to the transport) or a delay.\<close>

fun attempt_or_delay :: "event \<Rightarrow> bool" where
  "attempt_or_delay (Serdev_write _) = True"
| "attempt_or_delay (Msleep _) = True"
| "attempt_or_delay _ = False"

subsection \<open>Line framer\<close>

text \<open>
  The lines and the unterminated rest of a buffer; the messages emitted for it, which are
  its non-empty lines as C strings; and the buffer after the bytes of a feed that fit have
  been appended.
\<close>

definition framed_lines :: "string \<Rightarrow> string list" where
  "framed_lines b = fst (split_crlf [] b)"

definition framed_rest :: "string \<Rightarrow> string" where
  "framed_rest b = snd (split_crlf [] b)"

definition emitted :: "string \<Rightarrow> string list" where
  "emitted b = map cstr (filter (\<lambda>l. l \<noteq> []) (framed_lines b))"

definition appended :: "mpwr_dev \<Rightarrow> string \<Rightarrow> string" where
  "appended d buf = rcvbuf d @ take (RCVBUF_SIZE - length (rcvbuf d)) buf"

subsection \<open>Power sequencer\<close>

text \<open>The number of sysfs notifications on an attribute so far.\<close>

definition notified :: "string \<Rightarrow> mpwr_dev \<Rightarrow> nat" where
  "notified attr d = length (filter (\<lambda>e. e = Sysfs_notify attr) (trace d))"

text \<open>The modem control lines that the forced power removal sets back to inputs.\<close>

definition control_lines :: "mpwr_dev \<Rightarrow> gpio list" where
  "control_lines d =
     [Enable_gpio, Reset_gpio, Sleep_gpio, mpwr_eg25_get_pwrkey_gpio d, Host_ready_gpio, Dtr_gpio]"

definition undriven :: "mpwr_dev \<Rightarrow> gpio \<Rightarrow> bool" where
  "undriven d g = (wired d g \<longrightarrow> gpio_state d g = Gpio_input)"

section \<open>A concrete device\<close>

text \<open>
  The device after \<^verbatim>\<open>mpwr_probe_generic\<close> on a board that wires every line of
  \<^verbatim>\<open>mpwr_eg25_gpios\<close> and binds the serial port: the structure is zeroed and each
  line has the direction and level of the table.
\<close>

definition eg25_gpio_init :: "gpio \<Rightarrow> gpio_mode" where
  "eg25_gpio_init g =
     (if g = Enable_gpio \<or> g = Host_ready_gpio then Gpio_output True
      else if g = Status_gpio \<or> g = Wakeup_gpio \<or> g = Cts_gpio then Gpio_input
      else Gpio_output False)"

definition eg25_probed :: mpwr_dev where
  "eg25_probed =
     \<lparr>flags = {}, serdev = True, rcvbuf = [], msg = [], msg_ok = False, kfifo = [],
      regulator_enabled = False, wired = (\<lambda>g. True), gpio_state = eg25_gpio_init,
      status_pwrkey_multiplexed = False, last_request = MPWR_REQ_NONE, last_wakeup = 0,
      now = 0, trace = []\<rparr>"

text \<open>A world in which nothing answers: every call succeeds, no line is ever active.\<close>

definition quiet_env :: pwr_env where
  "quiet_env =
     \<lparr>env_regulator_enable = 0, env_wakeup = (\<lambda>t. False), env_status = (\<lambda>t. True),
      env_serdev_open = 0, env_set_parity = 0, env_at_dialogue = (\<lambda>d. (True, d))\<rparr>"

text \<open>The same device while a command is outstanding, with one response line received.\<close>

definition busy_dev :: mpwr_dev where
  "busy_dev = eg25_probed\<lparr>flags := {MPWR_F_RECEIVING_MSG}, msg := ''+TEST: 1'' @ [NUL]\<rparr>"

definition no_power_down :: "mpwr_dev \<Rightarrow> int \<times> mpwr_dev" where
  "no_power_down d = (0, d)"

text \<open>The world of the scenario \<^verbatim>\<open>AT+TEST\<close>: one response line, then \<^verbatim>\<open>OK\<close>.\<close>

definition test_env :: at_env where
  "test_env = \<lparr>env_write = 9, env_lines = [''+TEST: 1'', ''OK''], env_signal = False\<rparr>"

text \<open>A world in which the modem answers \<^verbatim>\<open>ERROR\<close>.\<close>

definition error_env :: at_env where
  "error_env = \<lparr>env_write = 9, env_lines = [''ERROR''], env_signal = False\<rparr>"

text \<open>
  An open reader session whose queue holds 455 lines of 9 bytes: one byte is left.
\<close>

definition full_dev :: mpwr_dev where
  "full_dev = eg25_probed\<lparr>flags := {MPWR_F_OPEN},
      kfifo := concat (replicate 455 (''+CSQ: 12'' @ [CHR 0x0A]))\<rparr>"

text \<open>An open reader session while a command is outstanding.\<close>

definition open_busy_dev :: mpwr_dev where
  "open_busy_dev = eg25_probed\<lparr>flags := {MPWR_F_OPEN, MPWR_F_RECEIVING_MSG}\<rparr>"

text \<open>An open reader session, and bytes that hold an empty line, two lines and a fragment.\<close>

definition open_dev :: mpwr_dev where
  "open_dev = eg25_probed\<lparr>flags := {MPWR_F_OPEN}\<rparr>"

definition sample_bytes :: string where
  "sample_bytes = CRLF @ ''RDY'' @ CRLF @ ''+CREG: 1'' @ CRLF @ ''+CS''"

text \<open>The device powered on, with no power request pending.\<close>

definition powered_dev :: mpwr_dev where
  "powered_dev = eg25_probed\<lparr>flags := {MPWR_F_POWERED}\<rparr>"

section \<open>Properties\<close>

lemmas errno_defs =
  EIO_def E2BIG_def EWOULDBLOCK_def EFAULT_def EBUSY_def ENODEV_def EINVAL_def
  ETIMEDOUT_def ERESTARTSYS_def

subsection \<open>Command engine: auxiliary facts\<close>

lemma pack_simps: "pack [] = []" "pack (l # ls) = l @ NUL # pack ls"
  by (simp_all add: pack_def)

lemma eg25_receive_msg_frame:
  "msg (mpwr_eg25_receive_msg d l) = msg d"
  "msg_ok (mpwr_eg25_receive_msg d l) = msg_ok d"
  "trace (mpwr_eg25_receive_msg d l) = trace d"
  "serdev (mpwr_eg25_receive_msg d l) = serdev d"
  "rcvbuf (mpwr_eg25_receive_msg d l) = rcvbuf d"
  "now (mpwr_eg25_receive_msg d l) = now d"
  "(MPWR_F_RECEIVING_MSG \<in> flags (mpwr_eg25_receive_msg d l)) = (MPWR_F_RECEIVING_MSG \<in> flags d)"
  by (simp_all add: mpwr_eg25_receive_msg_def set_bit_flag_def test_and_set_bit_flag_def
      test_bit_flag_def)

lemma receive_msg_nonterminal:
  assumes "recv_msg var = Some mpwr_eg25_receive_msg" "MPWR_F_RECEIVING_MSG \<in> flags d"
    "\<not> is_terminal l"
  shows "MPWR_F_RECEIVING_MSG \<in> flags (mpwr_serdev_receive_msg var d l)"
    and "msg (mpwr_serdev_receive_msg var d l)
         = msg d @ pack (accumulated (length (msg d)) [l])"
    and "trace (mpwr_serdev_receive_msg var d l)
         = trace d @ replicate (1 - length (accumulated (length (msg d)) [l])) msg_overflow_warning"
    and "msg_ok (mpwr_serdev_receive_msg var d l) = msg_ok d"
    and "serdev (mpwr_serdev_receive_msg var d l) = serdev d"
  using assms
  by (simp_all add: mpwr_serdev_receive_msg_def Let_def test_bit_flag_def eg25_receive_msg_frame
      is_terminal_def emit_def pack_simps msg_overflow_warning_def)

lemma receive_msg_terminal:
  assumes "recv_msg var = Some mpwr_eg25_receive_msg" "MPWR_F_RECEIVING_MSG \<in> flags d"
    "is_terminal l"
  shows "MPWR_F_RECEIVING_MSG \<notin> flags (mpwr_serdev_receive_msg var d l)"
    and "msg (mpwr_serdev_receive_msg var d l) = msg d"
    and "trace (mpwr_serdev_receive_msg var d l) = trace d"
    and "msg_ok (mpwr_serdev_receive_msg var d l) = (l = ''OK'')"
    and "serdev (mpwr_serdev_receive_msg var d l) = serdev d"
  using assms
  by (auto simp add: mpwr_serdev_receive_msg_def Let_def test_bit_flag_def eg25_receive_msg_frame
      is_terminal_def clear_bit_flag_def)

lemma wait_reply_idle: "MPWR_F_RECEIVING_MSG \<notin> flags d \<Longrightarrow> wait_reply var d ls = d"
  by (cases ls) (simp_all add: test_bit_flag_def)

lemma wait_reply_nonterminal:
  assumes "recv_msg var = Some mpwr_eg25_receive_msg" "MPWR_F_RECEIVING_MSG \<in> flags d"
    "\<forall>l \<in> set ls. \<not> is_terminal l"
  shows "MPWR_F_RECEIVING_MSG \<in> flags (wait_reply var d ls)
    \<and> msg (wait_reply var d ls) = msg d @ pack (accumulated (length (msg d)) ls)
    \<and> trace (wait_reply var d ls)
         = trace d @ replicate (length ls - length (accumulated (length (msg d)) ls)) msg_overflow_warning
    \<and> msg_ok (wait_reply var d ls) = msg_ok d
    \<and> serdev (wait_reply var d ls) = serdev d"
  using assms
proof (induction ls arbitrary: d)
  case Nil
  then show ?case by (simp add: pack_simps)
next
  case (Cons l ls)
  let ?d1 = "mpwr_serdev_receive_msg var d l"
  have nt: "\<not> is_terminal l" using Cons.prems by simp
  note step = receive_msg_nonterminal [OF Cons.prems(1) Cons.prems(2) nt]
  have ih: "MPWR_F_RECEIVING_MSG \<in> flags (wait_reply var ?d1 ls)
    \<and> msg (wait_reply var ?d1 ls) = msg ?d1 @ pack (accumulated (length (msg ?d1)) ls)
    \<and> trace (wait_reply var ?d1 ls)
         = trace ?d1 @ replicate (length ls - length (accumulated (length (msg ?d1)) ls)) msg_overflow_warning
    \<and> msg_ok (wait_reply var ?d1 ls) = msg_ok ?d1
    \<and> serdev (wait_reply var ?d1 ls) = serdev ?d1"
    using Cons.IH [of ?d1] Cons.prems step(1) by simp
  have len: "length (accumulated u ls) \<le> length ls" for u
    by (induction ls arbitrary: u) (auto simp: le_SucI)
  show ?case
  proof (cases "length (msg d) + length l + 1 > MSG_SIZE")
    case True
    then show ?thesis using ih step Cons.prems(2) len [of "length (msg d)"]
      by (simp add: test_bit_flag_def pack_simps Suc_diff_le replicate_append_same)
  next
    case False
    then show ?thesis using ih step Cons.prems(2)
      by (simp add: test_bit_flag_def pack_simps)
  qed
qed

lemma wait_reply_append:
  "wait_reply var d (xs @ ys) = wait_reply var (wait_reply var d xs) ys"
  by (induction xs arbitrary: d) (simp_all add: wait_reply_idle test_bit_flag_def)

lemma split_at_terminal:
  "find is_terminal ls = Some t \<Longrightarrow>
     ls = takeWhile (\<lambda>l. \<not> is_terminal l) ls @ t # drop (Suc (length (takeWhile (\<lambda>l. \<not> is_terminal l) ls))) ls
     \<and> is_terminal t"
  by (induction ls) (auto split: if_splits)

lemma find_None_nonterminal: "find is_terminal ls = None \<Longrightarrow> \<forall>l \<in> set ls. \<not> is_terminal l"
  by (simp add: find_None_iff)

lemma wait_reply_terminal:
  assumes var: "recv_msg var = Some mpwr_eg25_receive_msg"
    and rcv: "MPWR_F_RECEIVING_MSG \<in> flags d"
    and fnd: "find is_terminal ls = Some t"
  shows "MPWR_F_RECEIVING_MSG \<notin> flags (wait_reply var d ls)
    \<and> msg (wait_reply var d ls)
        = msg d @ pack (accumulated (length (msg d)) (takeWhile (\<lambda>l. \<not> is_terminal l) ls))
    \<and> trace (wait_reply var d ls)
        = trace d @ replicate (length (takeWhile (\<lambda>l. \<not> is_terminal l) ls)
              - length (accumulated (length (msg d)) (takeWhile (\<lambda>l. \<not> is_terminal l) ls)))
            msg_overflow_warning
    \<and> msg_ok (wait_reply var d ls) = (t = ''OK'')
    \<and> serdev (wait_reply var d ls) = serdev d"
proof -
  let ?pre = "takeWhile (\<lambda>l. \<not> is_terminal l) ls"
  let ?post = "drop (Suc (length ?pre)) ls"
  have ls: "ls = ?pre @ t # ?post" and t: "is_terminal t"
    using split_at_terminal [OF fnd] by simp_all
  have pre: "\<forall>l \<in> set ?pre. \<not> is_terminal l"
    by (auto dest: set_takeWhileD)
  note a = wait_reply_nonterminal [OF var rcv pre]
  let ?d1 = "wait_reply var d ?pre"
  have r1: "MPWR_F_RECEIVING_MSG \<in> flags ?d1" using a by simp
  note b = receive_msg_terminal [OF var r1 t]
  have "wait_reply var d ls = wait_reply var ?d1 (t # ?post)"
    using ls wait_reply_append [of var d ?pre "t # ?post"] by simp
  also have "\<dots> = mpwr_serdev_receive_msg var ?d1 t"
    using r1 b(1) by (simp add: test_bit_flag_def wait_reply_idle)
  finally show ?thesis using a b by simp
qed

lemma send_msg_ok:
  assumes "serdev d" "length cmd + 2 < 128" "int (length cmd) + 2 \<le> wr"
  shows "mpwr_serdev_send_msg d cmd wr
         = (0, emit Serdev_wait_until_sent (emit (Serdev_write (cmd @ CRLF)) d))"
  using assms by (simp add: mpwr_serdev_send_msg_def Let_def)

lemma msg_lines_from_pack:
  assumes "\<forall>l \<in> set ls. NUL \<notin> set l" "length ls \<le> fuel"
  shows "msg_lines_from fuel (pack ls) = ls"
  using assms
proof (induction ls arbitrary: fuel)
  case Nil
  then show ?case by (cases fuel) (simp_all add: pack_simps)
next
  case (Cons l ls)
  then obtain f where f: "fuel = Suc f" by (cases fuel) auto
  have tw: "takeWhile (\<lambda>c. c \<noteq> NUL) (l @ NUL # pack ls) = l"
    using Cons.prems(1) by (auto simp add: takeWhile_tail)
  show ?case using Cons f tw by (simp add: pack_simps)
qed

lemma length_pack_ge: "length ls \<le> length (pack ls)"
  by (induction ls) (simp_all add: pack_simps)

lemma accumulated_subset: "set (accumulated u ls) \<subseteq> set ls"
  by (induction ls arbitrary: u) auto

lemma accumulated_all: "u + length (pack ls) \<le> MSG_SIZE \<Longrightarrow> accumulated u ls = ls"
  by (induction ls arbitrary: u) (simp_all add: pack_simps)

lemma takeWhile_all_nonterminal:
  "find is_terminal ls = None \<Longrightarrow> takeWhile (\<lambda>l. \<not> is_terminal l) ls = ls"
  by (simp add: find_None_iff)

lemma at_cmd_terminal:
  assumes var: "recv_msg var = Some mpwr_eg25_receive_msg"
    and free: "MPWR_F_RECEIVING_MSG \<notin> flags d"
    and sd: "serdev d"
    and len: "length cmd + 2 < 128"
    and wr: "int (length cmd) + 2 \<le> env_write env"
    and fnd: "find is_terminal (env_lines env) = Some t"
  shows "fst (uu_mpwr_serdev_at_cmd var d cmd tm re rt env) = (if t = ''OK'' then 0 else - EINVAL)"
    and "MPWR_F_RECEIVING_MSG \<notin> flags (snd (uu_mpwr_serdev_at_cmd var d cmd tm re rt env))"
    and "serdev (snd (uu_mpwr_serdev_at_cmd var d cmd tm re rt env))"
    and "msg (snd (uu_mpwr_serdev_at_cmd var d cmd tm re rt env))
         = pack (accumulated 0 (takeWhile (\<lambda>l. \<not> is_terminal l) (env_lines env)))"
    and "trace (snd (uu_mpwr_serdev_at_cmd var d cmd tm re rt env))
         = trace d @ [Serdev_write (cmd @ CRLF), Serdev_wait_until_sent]
           @ replicate (length (takeWhile (\<lambda>l. \<not> is_terminal l) (env_lines env))
               - length (accumulated 0 (takeWhile (\<lambda>l. \<not> is_terminal l) (env_lines env))))
             msg_overflow_warning
           @ (if t \<noteq> ''OK'' \<and> re then [Dev_err ''AT command returned ERROR''] else [])"
proof -
  let ?d3 = "emit Serdev_wait_until_sent
               (emit (Serdev_write (cmd @ CRLF)) ((set_bit_flag MPWR_F_RECEIVING_MSG d)\<lparr>msg := []\<rparr>))"
  have snd_ok: "mpwr_serdev_send_msg ((set_bit_flag MPWR_F_RECEIVING_MSG d)\<lparr>msg := []\<rparr>) cmd (env_write env)
      = (0, ?d3)"
    using send_msg_ok [of "(set_bit_flag MPWR_F_RECEIVING_MSG d)\<lparr>msg := []\<rparr>" cmd "env_write env"]
      sd len wr by (simp add: set_bit_flag_def)
  have rcv: "MPWR_F_RECEIVING_MSG \<in> flags ?d3"
    by (simp add: emit_def set_bit_flag_def)
  note w = wait_reply_terminal [OF var rcv fnd]
  have run: "uu_mpwr_serdev_at_cmd var d cmd tm re rt env =
      (if \<not> msg_ok (wait_reply var ?d3 (env_lines env)) then
         (- EINVAL, if re then emit (Dev_err ''AT command returned ERROR'') (wait_reply var ?d3 (env_lines env))
                    else wait_reply var ?d3 (env_lines env))
       else (0, wait_reply var ?d3 (env_lines env)))"
    using free snd_ok w
    by (simp add: uu_mpwr_serdev_at_cmd_def test_and_set_bit_flag_def at_cmd_run_def Let_def
        test_bit_flag_def)
  show "fst (uu_mpwr_serdev_at_cmd var d cmd tm re rt env) = (if t = ''OK'' then 0 else - EINVAL)"
    using w by (simp add: run)
  show "MPWR_F_RECEIVING_MSG \<notin> flags (snd (uu_mpwr_serdev_at_cmd var d cmd tm re rt env))"
    using w by (simp add: run emit_def)
  show "serdev (snd (uu_mpwr_serdev_at_cmd var d cmd tm re rt env))"
    using w sd by (simp add: run emit_def set_bit_flag_def)
  show "msg (snd (uu_mpwr_serdev_at_cmd var d cmd tm re rt env))
         = pack (accumulated 0 (takeWhile (\<lambda>l. \<not> is_terminal l) (env_lines env)))"
    using w by (simp add: run emit_def set_bit_flag_def)
  show "trace (snd (uu_mpwr_serdev_at_cmd var d cmd tm re rt env))
         = trace d @ [Serdev_write (cmd @ CRLF), Serdev_wait_until_sent]
           @ replicate (length (takeWhile (\<lambda>l. \<not> is_terminal l) (env_lines env))
               - length (accumulated 0 (takeWhile (\<lambda>l. \<not> is_terminal l) (env_lines env))))
             msg_overflow_warning
           @ (if t \<noteq> ''OK'' \<and> re then [Dev_err ''AT command returned ERROR''] else [])"
    using w by (simp add: run emit_def set_bit_flag_def)
qed

lemma at_cmd_no_terminal:
  assumes var: "recv_msg var = Some mpwr_eg25_receive_msg"
    and free: "MPWR_F_RECEIVING_MSG \<notin> flags d"
    and sd: "serdev d"
    and len: "length cmd + 2 < 128"
    and wr: "int (length cmd) + 2 \<le> env_write env"
    and fnd: "find is_terminal (env_lines env) = None"
  shows "fst (uu_mpwr_serdev_at_cmd var d cmd tm re rt env)
         = (if env_signal env then - ERESTARTSYS else - ETIMEDOUT)"
    and "MPWR_F_RECEIVING_MSG \<notin> flags (snd (uu_mpwr_serdev_at_cmd var d cmd tm re rt env))"
    and "serdev (snd (uu_mpwr_serdev_at_cmd var d cmd tm re rt env))"
    and "msg (snd (uu_mpwr_serdev_at_cmd var d cmd tm re rt env))
         = pack (accumulated 0 (env_lines env))"
    and "trace (snd (uu_mpwr_serdev_at_cmd var d cmd tm re rt env))
         = trace d @ [Serdev_write (cmd @ CRLF), Serdev_wait_until_sent]
           @ replicate (length (env_lines env) - length (accumulated 0 (env_lines env)))
             msg_overflow_warning
           @ (if rt then [Dev_err ''AT command timed out''] else [])"
proof -
  let ?d3 = "emit Serdev_wait_until_sent
               (emit (Serdev_write (cmd @ CRLF)) ((set_bit_flag MPWR_F_RECEIVING_MSG d)\<lparr>msg := []\<rparr>))"
  let ?d4 = "wait_reply var ?d3 (env_lines env)"
  have snd_ok: "mpwr_serdev_send_msg ((set_bit_flag MPWR_F_RECEIVING_MSG d)\<lparr>msg := []\<rparr>) cmd (env_write env)
      = (0, ?d3)"
    using send_msg_ok [of "(set_bit_flag MPWR_F_RECEIVING_MSG d)\<lparr>msg := []\<rparr>" cmd "env_write env"]
      sd len wr by (simp add: set_bit_flag_def)
  have rcv: "MPWR_F_RECEIVING_MSG \<in> flags ?d3"
    by (simp add: emit_def set_bit_flag_def)
  note w = wait_reply_nonterminal [OF var rcv find_None_nonterminal [OF fnd]]
  have run: "uu_mpwr_serdev_at_cmd var d cmd tm re rt env =
      (if env_signal env then - ERESTARTSYS else - ETIMEDOUT,
       if rt then emit (Dev_err ''AT command timed out'') (clear_bit_flag MPWR_F_RECEIVING_MSG ?d4)
       else clear_bit_flag MPWR_F_RECEIVING_MSG ?d4)"
    using free snd_ok w
    by (simp add: uu_mpwr_serdev_at_cmd_def test_and_set_bit_flag_def at_cmd_run_def Let_def
        test_bit_flag_def errno_defs)
  show "fst (uu_mpwr_serdev_at_cmd var d cmd tm re rt env)
         = (if env_signal env then - ERESTARTSYS else - ETIMEDOUT)"
    by (simp add: run)
  show "MPWR_F_RECEIVING_MSG \<notin> flags (snd (uu_mpwr_serdev_at_cmd var d cmd tm re rt env))"
    by (simp add: run emit_def clear_bit_flag_def)
  show "serdev (snd (uu_mpwr_serdev_at_cmd var d cmd tm re rt env))"
    using w sd by (simp add: run emit_def set_bit_flag_def clear_bit_flag_def)
  show "msg (snd (uu_mpwr_serdev_at_cmd var d cmd tm re rt env))
         = pack (accumulated 0 (env_lines env))"
    using w by (simp add: run emit_def set_bit_flag_def clear_bit_flag_def)
  show "trace (snd (uu_mpwr_serdev_at_cmd var d cmd tm re rt env))
         = trace d @ [Serdev_write (cmd @ CRLF), Serdev_wait_until_sent]
           @ replicate (length (env_lines env) - length (accumulated 0 (env_lines env)))
             msg_overflow_warning
           @ (if rt then [Dev_err ''AT command timed out''] else [])"
    using w by (simp add: run emit_def set_bit_flag_def clear_bit_flag_def)
qed

lemma msg_lines_pack:
  assumes "\<forall>l \<in> set ls. NUL \<notin> set l"
  shows "msg_lines_from (length (pack ls)) (pack ls) = ls"
  using msg_lines_from_pack [OF assms length_pack_ge] .

lemma count_warnings:
  "length (filter (\<lambda>e. e = msg_overflow_warning)
      (xs @ [Serdev_write w, Serdev_wait_until_sent] @ replicate n msg_overflow_warning
        @ (if b then [Dev_err m] else [])))
   = length (filter (\<lambda>e. e = msg_overflow_warning) xs) + n"
  by (simp add: msg_overflow_warning_def)

text \<open>
  C1. A command that is transmitted (the engine is free, the serial port is bound, the
  command fits the 128-byte send buffer and the transport takes all of it), on the eg25
  variant, with the lines \<open>env_lines env\<close> arriving before the timeout:
  if the first terminal line is \<^verbatim>\<open>OK\<close> the command returns 0; if it is
  \<^verbatim>\<open>ERROR\<close> the command returns \<^verbatim>\<open>-EINVAL\<close>, whatever was accumulated; if no
  terminal line arrives and the wait runs to its timeout, it returns \<^verbatim>\<open>-ETIMEDOUT\<close>.
  In every case the engine is free again on return, and the response buffer, read with the
  driver's own loop, holds the non-terminal lines that arrived before the terminal line, in
  arrival order, each kept if it fitted into the 4096 bytes at its arrival and dropped
  otherwise: all of them when together they fit. Each dropped line adds one warning to the
  log and does not end the transaction.
\<close>

theorem at_cmd_outcomes:
  assumes var: "recv_msg var = Some mpwr_eg25_receive_msg"
    and free: "\<not> test_bit_flag MPWR_F_RECEIVING_MSG d"
    and sd: "serdev d"
    and len: "length cmd + 2 < 128"
    and wr: "int (length cmd) + 2 \<le> env_write env"
    and cs: "\<forall>l \<in> set (env_lines env). NUL \<notin> set l"
  shows
    "(find is_terminal (env_lines env) = Some ''OK'' \<longrightarrow>
        fst (uu_mpwr_serdev_at_cmd var d cmd tm re rt env) = 0)
     \<and> (find is_terminal (env_lines env) = Some ''ERROR'' \<longrightarrow>
        fst (uu_mpwr_serdev_at_cmd var d cmd tm re rt env) = - EINVAL)
     \<and> (find is_terminal (env_lines env) = None \<and> \<not> env_signal env \<longrightarrow>
        fst (uu_mpwr_serdev_at_cmd var d cmd tm re rt env) = - ETIMEDOUT)
     \<and> \<not> test_bit_flag MPWR_F_RECEIVING_MSG (snd (uu_mpwr_serdev_at_cmd var d cmd tm re rt env))
     \<and> msg_lines (snd (uu_mpwr_serdev_at_cmd var d cmd tm re rt env))
         = accumulated 0 (takeWhile (\<lambda>l. \<not> is_terminal l) (env_lines env))
     \<and> (length (pack (takeWhile (\<lambda>l. \<not> is_terminal l) (env_lines env))) \<le> MSG_SIZE \<longrightarrow>
         msg_lines (snd (uu_mpwr_serdev_at_cmd var d cmd tm re rt env))
           = takeWhile (\<lambda>l. \<not> is_terminal l) (env_lines env))
     \<and> length (filter (\<lambda>e. e = msg_overflow_warning)
           (trace (snd (uu_mpwr_serdev_at_cmd var d cmd tm re rt env))))
         = length (filter (\<lambda>e. e = msg_overflow_warning) (trace d))
           + (length (takeWhile (\<lambda>l. \<not> is_terminal l) (env_lines env))
              - length (accumulated 0 (takeWhile (\<lambda>l. \<not> is_terminal l) (env_lines env))))"
proof -
  let ?r = "uu_mpwr_serdev_at_cmd var d cmd tm re rt env"
  let ?pre = "takeWhile (\<lambda>l. \<not> is_terminal l) (env_lines env)"
  have fr: "MPWR_F_RECEIVING_MSG \<notin> flags d" using free by (simp add: test_bit_flag_def)
  have cpre: "\<forall>l \<in> set (accumulated 0 ?pre). NUL \<notin> set l"
    using cs accumulated_subset [of 0 ?pre] by (auto dest: set_takeWhileD)
  have main: "fst ?r = (case find is_terminal (env_lines env) of
                  Some t \<Rightarrow> if t = ''OK'' then 0 else - EINVAL
                | None \<Rightarrow> if env_signal env then - ERESTARTSYS else - ETIMEDOUT)
      \<and> MPWR_F_RECEIVING_MSG \<notin> flags (snd ?r)
      \<and> msg (snd ?r) = pack (accumulated 0 ?pre)
      \<and> length (filter (\<lambda>e. e = msg_overflow_warning) (trace (snd ?r)))
         = length (filter (\<lambda>e. e = msg_overflow_warning) (trace d))
           + (length ?pre - length (accumulated 0 ?pre))"
  proof (cases "find is_terminal (env_lines env)")
    case None
    note a = at_cmd_no_terminal [OF var fr sd len wr None, of tm re rt]
    show ?thesis using a None count_warnings
      by (simp add: takeWhile_all_nonterminal [OF None])
  next
    case (Some t)
    note a = at_cmd_terminal [OF var fr sd len wr Some, of tm re rt]
    show ?thesis using a Some count_warnings by simp
  qed
  have lines: "msg_lines (snd ?r) = accumulated 0 ?pre"
    using main msg_lines_pack [OF cpre] by (simp add: msg_lines_def)
  have fits: "length (pack ?pre) \<le> MSG_SIZE \<longrightarrow> accumulated 0 ?pre = ?pre"
    using accumulated_all [of 0 ?pre] by simp
  show ?thesis using main lines fits by (simp add: test_bit_flag_def)
qed

theorem at_cmd_outcomes_witness:
  "fst (uu_mpwr_serdev_at_cmd (mpwr_eg25_variant quiet_env no_power_down) eg25_probed
          ''AT+TEST'' 1000 True True test_env) = 0
   \<and> msg_lines (snd (uu_mpwr_serdev_at_cmd (mpwr_eg25_variant quiet_env no_power_down)
          eg25_probed ''AT+TEST'' 1000 True True test_env)) = [''+TEST: 1'']"
  using at_cmd_outcomes [of "mpwr_eg25_variant quiet_env no_power_down" eg25_probed
      "''AT+TEST''" test_env 1000 True True]
  by (simp add: mpwr_eg25_variant_def eg25_probed_def test_bit_flag_def test_env_def NUL_def
      is_terminal_def MSG_SIZE_def pack_def)

lemma retry_loop_Suc:
  "at_cmd_retry_loop var d cmd tm (Suc n) ign envs i r =
     (let a = uu_mpwr_serdev_at_cmd var d cmd tm False (\<not> ign) (envs i) in
      if fst a \<noteq> - EINVAL \<and> (\<not> ign \<or> fst a \<noteq> - ETIMEDOUT) then a
      else at_cmd_retry_loop var (if fst a \<noteq> - ETIMEDOUT then msleep 1000 (snd a) else snd a)
             cmd tm n ign envs (Suc i) (fst a))"
  by (simp add: Let_def case_prod_beta)

lemma retry_loop_shift:
  "at_cmd_retry_loop var d cmd tm n ign envs (i + k) r
   = at_cmd_retry_loop var d cmd tm n ign (\<lambda>j. envs (j + k)) i r"
proof (induction n arbitrary: d i r)
  case 0
  show ?case by simp
next
  case (Suc n)
  have "at_cmd_retry_loop var d' cmd tm n ign envs (Suc (i + k)) r'
      = at_cmd_retry_loop var d' cmd tm n ign (\<lambda>j. envs (j + k)) (Suc i) r'" for d' r'
    using Suc.IH [of d' "Suc i" r'] by simp
  then show ?case
    by (simp only: retry_loop_Suc Let_def)
qed

lemma retry_loop_Suc_ret:
  "at_cmd_retry_loop var d cmd tm (Suc n) ign envs i r
   = at_cmd_retry_loop var d cmd tm (Suc n) ign envs i r'"
  by simp

lemma retry_unfold:
  assumes "2 \<le> tries"
  shows "at_cmd_retry_loop var d cmd tm (nat (tries - 1)) ign envs (Suc 0) r
      = uu_mpwr_serdev_at_cmd_with_retry var d cmd tm (tries - 1) ign (\<lambda>i. envs (Suc i))"
proof -
  obtain n where n: "nat (tries - 1) = Suc n" using assms by (cases "nat (tries - 1)") auto
  have "at_cmd_retry_loop var d cmd tm (Suc n) ign envs (0 + 1) r
      = at_cmd_retry_loop var d cmd tm (Suc n) ign (\<lambda>j. envs (j + 1)) 0 r"
    by (rule retry_loop_shift)
  also have "\<dots> = at_cmd_retry_loop var d cmd tm (Suc n) ign (\<lambda>j. envs (j + 1)) 0 0"
    by (rule retry_loop_Suc_ret)
  finally show ?thesis using assms n
    by (simp add: uu_mpwr_serdev_at_cmd_with_retry_def)
qed

lemma retry_first:
  "uu_mpwr_serdev_at_cmd_with_retry var d cmd tm tries ign envs =
     (let r = uu_mpwr_serdev_at_cmd var d cmd tm False (\<not> ign) (envs 0) in
      if fst r \<noteq> - EINVAL \<and> (\<not> ign \<or> fst r \<noteq> - ETIMEDOUT) then r
      else at_cmd_retry_loop var (if fst r \<noteq> - ETIMEDOUT then msleep 1000 (snd r) else snd r)
             cmd tm (nat (if tries < 1 then 1 else tries) - 1) ign envs (Suc 0) (fst r))"
proof -
  obtain n where n: "nat (if tries < 1 then 1 else tries) = Suc n"
    by (cases "nat (if tries < 1 then 1 else tries)") (auto split: if_splits)
  show ?thesis
    by (simp only: uu_mpwr_serdev_at_cmd_with_retry_def n retry_loop_Suc Let_def diff_Suc_1)
qed

lemma retry_all_error:
  assumes var: "recv_msg var = Some mpwr_eg25_receive_msg"
    and len: "length cmd + 2 < 128"
    and envs: "\<forall>j < n. int (length cmd) + 2 \<le> env_write (envs (i + j))
                 \<and> find is_terminal (env_lines (envs (i + j))) = Some ''ERROR''"
    and free: "MPWR_F_RECEIVING_MSG \<notin> flags d"
    and sd: "serdev d"
    and r: "0 < n \<or> r = - EINVAL"
  shows "fst (at_cmd_retry_loop var d cmd tm n ign envs i r) = - EINVAL
     \<and> filter attempt_or_delay (trace (snd (at_cmd_retry_loop var d cmd tm n ign envs i r)))
       = filter attempt_or_delay (trace d)
         @ concat (replicate n [Serdev_write (cmd @ CRLF), Msleep 1000])"
  using envs free sd r
proof (induction n arbitrary: d i r)
  case 0
  then show ?case by (simp add: emit_def)
next
  case (Suc n)
  let ?a = "uu_mpwr_serdev_at_cmd var d cmd tm False (\<not> ign) (envs i)"
  have e0: "int (length cmd) + 2 \<le> env_write (envs i)"
    "find is_terminal (env_lines (envs i)) = Some ''ERROR''"
    using Suc.prems(1) by (auto dest: spec [of _ 0])
  note a = at_cmd_terminal [OF var Suc.prems(2) Suc.prems(3) len e0, of tm False "\<not> ign"]
  let ?d1 = "msleep 1000 (snd ?a)"
  have rest: "\<forall>j < n. int (length cmd) + 2 \<le> env_write (envs (Suc i + j))
                 \<and> find is_terminal (env_lines (envs (Suc i + j))) = Some ''ERROR''"
    using Suc.prems(1) by (auto dest: spec [of _ "Suc _"])
  have f1: "MPWR_F_RECEIVING_MSG \<notin> flags ?d1" and s1: "serdev ?d1"
    using a by (simp_all add: msleep_def emit_def)
  have ih: "fst (at_cmd_retry_loop var ?d1 cmd tm n ign envs (Suc i) (- EINVAL)) = - EINVAL
     \<and> filter attempt_or_delay (trace (snd (at_cmd_retry_loop var ?d1 cmd tm n ign envs (Suc i) (- EINVAL))))
       = filter attempt_or_delay (trace ?d1)
         @ concat (replicate n [Serdev_write (cmd @ CRLF), Msleep 1000])"
    using Suc.IH [OF rest f1 s1, of "- EINVAL"] by simp
  have tr: "filter attempt_or_delay (trace ?d1)
      = filter attempt_or_delay (trace d) @ [Serdev_write (cmd @ CRLF), Msleep 1000]"
    using a by (simp add: msleep_def emit_def msg_overflow_warning_def)
  have step: "at_cmd_retry_loop var d cmd tm (Suc n) ign envs i r
      = at_cmd_retry_loop var ?d1 cmd tm n ign envs (Suc i) (- EINVAL)"
    using a(1) by (simp add: retry_loop_Suc Let_def errno_defs del: at_cmd_retry_loop.simps(2))
  show ?case unfolding step using ih tr by simp
qed

text \<open>
  C6. The retry wrapper, by the outcome of its first attempt. A timeout is returned at once
  unless the caller asked to ignore timeouts; with timeouts ignored and tries left, the
  wrapper goes on as a wrapper with one try less, without delay. An \<^verbatim>\<open>ERROR\<close>
  (\<^verbatim>\<open>-EINVAL\<close>) is followed by \<^verbatim>\<open>msleep(1000)\<close> and, with tries left, by the
  wrapper with one try less. When the tries are used up the last outcome is returned.
  When each of the \<open>tries\<close> attempts ends with \<^verbatim>\<open>ERROR\<close>, the result is
  \<^verbatim>\<open>-EINVAL\<close> and the writes and sleeps of the run are exactly \<open>tries\<close> times a
  write of the command followed by a sleep of 1000 ms: for three tries, three attempts with
  a delay of 1000 ms after each of them, so between the first and the second and between
  the second and the third.
\<close>

theorem at_cmd_retry:
  "(fst (uu_mpwr_serdev_at_cmd var d cmd tm False (\<not> ign) (envs 0)) = - ETIMEDOUT \<and> \<not> ign \<longrightarrow>
      uu_mpwr_serdev_at_cmd_with_retry var d cmd tm tries ign envs
        = uu_mpwr_serdev_at_cmd var d cmd tm False (\<not> ign) (envs 0))
   \<and> (fst (uu_mpwr_serdev_at_cmd var d cmd tm False (\<not> ign) (envs 0)) = - ETIMEDOUT \<and> ign
        \<and> 2 \<le> tries \<longrightarrow>
      uu_mpwr_serdev_at_cmd_with_retry var d cmd tm tries ign envs
        = uu_mpwr_serdev_at_cmd_with_retry var
            (snd (uu_mpwr_serdev_at_cmd var d cmd tm False (\<not> ign) (envs 0)))
            cmd tm (tries - 1) ign (\<lambda>i. envs (Suc i)))
   \<and> (fst (uu_mpwr_serdev_at_cmd var d cmd tm False (\<not> ign) (envs 0)) = - EINVAL
        \<and> 2 \<le> tries \<longrightarrow>
      uu_mpwr_serdev_at_cmd_with_retry var d cmd tm tries ign envs
        = uu_mpwr_serdev_at_cmd_with_retry var
            (msleep 1000 (snd (uu_mpwr_serdev_at_cmd var d cmd tm False (\<not> ign) (envs 0))))
            cmd tm (tries - 1) ign (\<lambda>i. envs (Suc i)))
   \<and> (fst (uu_mpwr_serdev_at_cmd var d cmd tm False (\<not> ign) (envs 0)) = - EINVAL
        \<and> tries \<le> 1 \<longrightarrow>
      fst (uu_mpwr_serdev_at_cmd_with_retry var d cmd tm tries ign envs) = - EINVAL)
   \<and> (fst (uu_mpwr_serdev_at_cmd var d cmd tm False (\<not> ign) (envs 0)) = - ETIMEDOUT \<and> ign
        \<and> tries \<le> 1 \<longrightarrow>
      fst (uu_mpwr_serdev_at_cmd_with_retry var d cmd tm tries ign envs) = - ETIMEDOUT)
   \<and> (recv_msg var = Some mpwr_eg25_receive_msg \<and> \<not> test_bit_flag MPWR_F_RECEIVING_MSG d
        \<and> serdev d \<and> length cmd + 2 < 128 \<and> 1 \<le> tries
        \<and> (\<forall>j < nat tries. int (length cmd) + 2 \<le> env_write (envs j)
              \<and> find is_terminal (env_lines (envs j)) = Some ''ERROR'') \<longrightarrow>
      fst (uu_mpwr_serdev_at_cmd_with_retry var d cmd tm tries ign envs) = - EINVAL
      \<and> filter attempt_or_delay
          (trace (snd (uu_mpwr_serdev_at_cmd_with_retry var d cmd tm tries ign envs)))
        = filter attempt_or_delay (trace d)
          @ concat (replicate (nat tries) [Serdev_write (cmd @ CRLF), Msleep 1000]))"
proof -
  let ?a = "uu_mpwr_serdev_at_cmd var d cmd tm False (\<not> ign) (envs 0)"
  let ?w = "uu_mpwr_serdev_at_cmd_with_retry var d cmd tm tries ign envs"
  have p1: "fst ?a = - ETIMEDOUT \<and> \<not> ign \<longrightarrow> ?w = ?a"
  proof (intro impI, elim conjE)
    assume h: "fst ?a = - ETIMEDOUT" "\<not> ign"
    show "?w = ?a" using h by (simp add: retry_first Let_def errno_defs)
  qed
  have p2: "fst ?a = - ETIMEDOUT \<and> ign \<and> 2 \<le> tries \<longrightarrow>
      ?w = uu_mpwr_serdev_at_cmd_with_retry var (snd ?a) cmd tm (tries - 1) ign (\<lambda>i. envs (Suc i))"
  proof (intro impI, elim conjE)
    assume h: "fst ?a = - ETIMEDOUT" "ign" "2 \<le> tries"
    have n: "nat tries - Suc 0 = nat (tries - 1)" using h(3) by linarith
    have "?w = at_cmd_retry_loop var (snd ?a) cmd tm (nat (tries - 1)) ign envs (Suc 0) (fst ?a)"
      using h by (simp add: retry_first Let_def n)
    then show "?w = uu_mpwr_serdev_at_cmd_with_retry var (snd ?a) cmd tm (tries - 1) ign (\<lambda>i. envs (Suc i))"
      using retry_unfold [OF h(3)] by simp
  qed
  have p3: "fst ?a = - EINVAL \<and> 2 \<le> tries \<longrightarrow>
      ?w = uu_mpwr_serdev_at_cmd_with_retry var (msleep 1000 (snd ?a)) cmd tm (tries - 1) ign
             (\<lambda>i. envs (Suc i))"
  proof (intro impI, elim conjE)
    assume h: "fst ?a = - EINVAL" "2 \<le> tries"
    have n: "nat tries - Suc 0 = nat (tries - 1)" using h(2) by linarith
    have "?w = at_cmd_retry_loop var (msleep 1000 (snd ?a)) cmd tm (nat (tries - 1)) ign envs
                 (Suc 0) (fst ?a)"
      using h by (simp add: retry_first Let_def n errno_defs)
    then show "?w = uu_mpwr_serdev_at_cmd_with_retry var (msleep 1000 (snd ?a)) cmd tm (tries - 1)
                      ign (\<lambda>i. envs (Suc i))"
      using retry_unfold [OF h(2)] by simp
  qed
  have p4: "fst ?a = - EINVAL \<and> tries \<le> 1 \<longrightarrow> fst ?w = - EINVAL"
  proof (intro impI, elim conjE)
    assume h: "fst ?a = - EINVAL" "tries \<le> 1"
    have n: "nat tries - Suc 0 = 0" using h(2) by linarith
    show "fst ?w = - EINVAL" using h(1) by (simp add: retry_first Let_def n errno_defs)
  qed
  have p5: "fst ?a = - ETIMEDOUT \<and> ign \<and> tries \<le> 1 \<longrightarrow> fst ?w = - ETIMEDOUT"
  proof (intro impI, elim conjE)
    assume h: "fst ?a = - ETIMEDOUT" "ign" "tries \<le> 1"
    have n: "nat tries - Suc 0 = 0" using h(3) by linarith
    show "fst ?w = - ETIMEDOUT" using h(1,2) by (simp add: retry_first Let_def n)
  qed
  have p6: "recv_msg var = Some mpwr_eg25_receive_msg \<and> \<not> test_bit_flag MPWR_F_RECEIVING_MSG d
        \<and> serdev d \<and> length cmd + 2 < 128 \<and> 1 \<le> tries
        \<and> (\<forall>j < nat tries. int (length cmd) + 2 \<le> env_write (envs j)
              \<and> find is_terminal (env_lines (envs j)) = Some ''ERROR'') \<longrightarrow>
      fst ?w = - EINVAL
      \<and> filter attempt_or_delay (trace (snd ?w))
        = filter attempt_or_delay (trace d)
          @ concat (replicate (nat tries) [Serdev_write (cmd @ CRLF), Msleep 1000])"
  proof (intro impI, elim conjE)
    assume h: "recv_msg var = Some mpwr_eg25_receive_msg"
      "\<not> test_bit_flag MPWR_F_RECEIVING_MSG d" "serdev d" "length cmd + 2 < 128" "1 \<le> tries"
      "\<forall>j < nat tries. int (length cmd) + 2 \<le> env_write (envs j)
              \<and> find is_terminal (env_lines (envs j)) = Some ''ERROR''"
    have fr: "MPWR_F_RECEIVING_MSG \<notin> flags d" using h(2) by (simp add: test_bit_flag_def)
    have e: "\<forall>j < nat tries. int (length cmd) + 2 \<le> env_write (envs (0 + j))
              \<and> find is_terminal (env_lines (envs (0 + j))) = Some ''ERROR''"
      using h(6) by simp
    have pos: "0 < nat tries \<or> (0::int) = - EINVAL" using h(5) by simp
    show "fst ?w = - EINVAL
      \<and> filter attempt_or_delay (trace (snd ?w))
        = filter attempt_or_delay (trace d)
          @ concat (replicate (nat tries) [Serdev_write (cmd @ CRLF), Msleep 1000])"
      using retry_all_error [OF h(1) h(4) e fr h(3) pos, of tm ign] h(5)
      by (simp add: uu_mpwr_serdev_at_cmd_with_retry_def)
  qed
  show ?thesis using p1 p2 p3 p4 p5 p6 by blast
qed

theorem at_cmd_retry_witness:
  "fst (uu_mpwr_serdev_at_cmd_with_retry (mpwr_eg25_variant quiet_env no_power_down) eg25_probed
         ''AT+TEST'' 1000 3 False (\<lambda>i. error_env)) = - EINVAL
   \<and> filter attempt_or_delay
       (trace (snd (uu_mpwr_serdev_at_cmd_with_retry (mpwr_eg25_variant quiet_env no_power_down)
          eg25_probed ''AT+TEST'' 1000 3 False (\<lambda>i. error_env))))
     = [Serdev_write (''AT+TEST'' @ CRLF), Msleep 1000,
        Serdev_write (''AT+TEST'' @ CRLF), Msleep 1000,
        Serdev_write (''AT+TEST'' @ CRLF), Msleep 1000]"
  using at_cmd_retry [of "mpwr_eg25_variant quiet_env no_power_down" eg25_probed "''AT+TEST''"
      1000 False "\<lambda>i. error_env" 3]
  by (simp add: mpwr_eg25_variant_def eg25_probed_def test_bit_flag_def error_env_def
      is_terminal_def numeral_3_eq_3)

text \<open>
  C8. While a command is outstanding (\<^verbatim>\<open>MPWR_F_RECEIVING_MSG\<close> is set), a further
  \<^verbatim>\<open>__mpwr_serdev_at_cmd\<close> returns \<^verbatim>\<open>-EBUSY\<close> at once and leaves the whole device
  state as it was: nothing is written to the transport (the trace is unchanged) and the
  response accumulated so far, the flag and \<^verbatim>\<open>msg_ok\<close> are untouched. The entry test
  is one atomic test-and-set: after any call has passed it, the flag is set, so a second
  call entering before the first has finished sees the engine busy.
\<close>

theorem at_cmd_busy:
  "(test_bit_flag MPWR_F_RECEIVING_MSG d \<longrightarrow>
      uu_mpwr_serdev_at_cmd var d cmd t re rt env = (- EBUSY, d))
   \<and> test_bit_flag MPWR_F_RECEIVING_MSG (snd (test_and_set_bit_flag MPWR_F_RECEIVING_MSG d))
   \<and> uu_mpwr_serdev_at_cmd var (snd (test_and_set_bit_flag MPWR_F_RECEIVING_MSG d))
        cmd2 t2 re2 rt2 env2
      = (- EBUSY, snd (test_and_set_bit_flag MPWR_F_RECEIVING_MSG d))"
  by (simp add: uu_mpwr_serdev_at_cmd_def test_and_set_bit_flag_def test_bit_flag_def
      set_bit_flag_def insert_absorb)

theorem at_cmd_busy_witness:
  "test_bit_flag MPWR_F_RECEIVING_MSG busy_dev
   \<and> uu_mpwr_serdev_at_cmd (mpwr_eg25_variant quiet_env no_power_down) busy_dev ''AT'' 1000
        True True \<lparr>env_write = 4, env_lines = [''OK''], env_signal = False\<rparr>
      = (- EBUSY, busy_dev)"
  using at_cmd_busy [of busy_dev "mpwr_eg25_variant quiet_env no_power_down" "''AT''" 1000
        True True "\<lparr>env_write = 4, env_lines = [''OK''], env_signal = False\<rparr>"]
  by (simp add: test_bit_flag_def busy_dev_def eg25_probed_def)

subsection \<open>Line framer\<close>

lemma find_first_CRLF_simps:
  "find_first CRLF [] = None"
  "find_first CRLF [c] = None"
  "find_first CRLF (c1 # c2 # cs) =
     (if [c1, c2] = CRLF then Some 0 else map_option Suc (find_first CRLF (c2 # cs)))"
  by (simp_all add: CRLF_def)

declare find_first.simps [simp del]

lemma split_crlf_none:
  "find_first CRLF b = None \<Longrightarrow> split_crlf cur b = ([], cur @ b)"
proof (induction cur b rule: split_crlf.induct)
  case (3 cur c1 c2 cs)
  then show ?case by (simp add: find_first_CRLF_simps split: if_splits)
qed simp_all

lemma split_crlf_some:
  "find_first CRLF b = Some p \<Longrightarrow>
     p + 2 \<le> length b
     \<and> split_crlf cur b
       = ((cur @ take p b) # fst (split_crlf [] (drop (p + 2) b)),
          snd (split_crlf [] (drop (p + 2) b)))"
proof (induction cur b arbitrary: p rule: split_crlf.induct)
  case (1 cur)
  then show ?case by (simp add: find_first_CRLF_simps)
next
  case (2 cur c)
  then show ?case by (simp add: find_first_CRLF_simps)
next
  case (3 cur c1 c2 cs)
  show ?case
  proof (cases "[c1, c2] = CRLF")
    case True
    then have "p = 0" using "3.prems" by (simp add: find_first_CRLF_simps)
    then show ?thesis using True by simp
  next
    case False
    then obtain q where q: "find_first CRLF (c2 # cs) = Some q" "p = Suc q"
      using "3.prems" by (auto simp add: find_first_CRLF_simps)
    show ?thesis using "3.IH"(3) [OF False q(1)] False q(2) by simp
  qed
qed

lemma find_first_take:
  "find_first CRLF b = Some p \<Longrightarrow> find_first CRLF (take p b) = None"
proof (induction b arbitrary: p rule: induct_list012)
  case 1
  then show ?case by (simp add: find_first_CRLF_simps)
next
  case (2 c)
  then show ?case by (simp add: find_first_CRLF_simps)
next
  case (3 c1 c2 cs)
  show ?case
  proof (cases "[c1, c2] = CRLF")
    case True
    then have "p = 0" using "3.prems" by (simp add: find_first_CRLF_simps)
    then show ?thesis by (simp add: find_first_CRLF_simps)
  next
    case False
    then obtain q where q: "find_first CRLF (c2 # cs) = Some q" "p = Suc q"
      using "3.prems" by (auto simp add: find_first_CRLF_simps)
    have "find_first CRLF (take q (c2 # cs)) = None" using "3.IH"(2) [OF q(1)] .
    then show ?thesis using False q(2)
      by (cases q) (simp_all add: find_first_CRLF_simps)
  qed
qed

lemma find_first_at:
  "find_first CRLF b = Some p \<Longrightarrow> b = take p b @ CRLF @ drop (p + 2) b"
proof (induction b arbitrary: p rule: induct_list012)
  case 1
  then show ?case by (simp add: find_first_CRLF_simps)
next
  case (2 c)
  then show ?case by (simp add: find_first_CRLF_simps)
next
  case (3 c1 c2 cs)
  show ?case
  proof (cases "[c1, c2] = CRLF")
    case True
    then have "p = 0" using "3.prems" by (simp add: find_first_CRLF_simps)
    then show ?thesis using True by (simp add: CRLF_def)
  next
    case False
    then obtain q where q: "find_first CRLF (c2 # cs) = Some q" "p = Suc q"
      using "3.prems" by (auto simp add: find_first_CRLF_simps)
    show ?thesis using "3.IH"(2) [OF q(1)] q(2) by simp
  qed
qed

lemma framed_none:
  assumes "find_first CRLF b = None"
  shows "framed_lines b = []" and "framed_rest b = b"
  using split_crlf_none [OF assms, of "[]"] by (simp_all add: framed_lines_def framed_rest_def)

lemma framed_some:
  assumes "find_first CRLF b = Some p"
  shows "framed_lines b = take p b # framed_lines (drop (p + 2) b)"
    and "framed_rest b = framed_rest (drop (p + 2) b)"
    and "p + 2 \<le> length b"
  using split_crlf_some [OF assms, of "[]"] by (simp_all add: framed_lines_def framed_rest_def)

lemma framed_props:
  "concat (map (\<lambda>l. l @ CRLF) (framed_lines b)) @ framed_rest b = b
   \<and> (\<forall>l \<in> set (framed_lines b). \<not> has_crlf l)
   \<and> \<not> has_crlf (framed_rest b)
   \<and> (has_crlf b \<longrightarrow> length (framed_rest b) + 2 \<le> length b)"
proof (induction "length b" arbitrary: b rule: less_induct)
  case less
  show ?case
  proof (cases "find_first CRLF b")
    case None
    then show ?thesis by (simp add: framed_none has_crlf_def)
  next
    case (Some p)
    note f = framed_some [OF Some]
    have shorter: "length (drop (p + 2) b) < length b" using f(3) by simp
    note ih = less [OF shorter]
    have first: "\<not> has_crlf (take p b)"
      using find_first_take [OF Some] by (simp add: has_crlf_def)
    have rec: "take p b @ CRLF @ drop (p + 2) b = b" using find_first_at [OF Some] by simp
    have len: "length (framed_rest (drop (p + 2) b)) \<le> length (drop (p + 2) b)"
      using ih by (cases "has_crlf (drop (p + 2) b)") (simp_all add: has_crlf_def framed_none)
    have c1: "concat (map (\<lambda>l. l @ CRLF) (framed_lines b)) @ framed_rest b = b"
    proof -
      have "concat (map (\<lambda>l. l @ CRLF) (framed_lines b)) @ framed_rest b
          = take p b @ CRLF @ (concat (map (\<lambda>l. l @ CRLF) (framed_lines (drop (p + 2) b)))
              @ framed_rest (drop (p + 2) b))"
        by (simp add: f)
      also have "\<dots> = take p b @ CRLF @ drop (p + 2) b" using ih by simp
      finally show ?thesis using rec by simp
    qed
    have c2: "\<forall>l \<in> set (framed_lines b). \<not> has_crlf l" using ih first by (simp add: f)
    have c3: "\<not> has_crlf (framed_rest b)" using ih by (simp add: f)
    have c4: "length (framed_rest b) + 2 \<le> length b" using len f(3) by (simp add: f(2))
    show ?thesis using c1 c2 c3 c4 by simp
  qed
qed

lemma eg25_receive_msg_rcvbuf:
  "mpwr_eg25_receive_msg (d\<lparr>rcvbuf := x\<rparr>) l = (mpwr_eg25_receive_msg d l)\<lparr>rcvbuf := x\<rparr>"
  by (simp add: mpwr_eg25_receive_msg_def test_bit_flag_def set_bit_flag_def
      test_and_set_bit_flag_def)

lemma receive_msg_rcvbuf:
  assumes "recv_msg var = Some mpwr_eg25_receive_msg"
  shows "mpwr_serdev_receive_msg var (d\<lparr>rcvbuf := x\<rparr>) l
         = (mpwr_serdev_receive_msg var d l)\<lparr>rcvbuf := x\<rparr>"
proof -
  define d1 where "d1 = mpwr_eg25_receive_msg d l"
  have a: "mpwr_serdev_receive_msg var (d\<lparr>rcvbuf := x\<rparr>) l =
     (if \<not> test_bit_flag MPWR_F_RECEIVING_MSG (d1\<lparr>rcvbuf := x\<rparr>) then d1\<lparr>rcvbuf := x\<rparr>
      else if l = ''OK'' then
        (clear_bit_flag MPWR_F_RECEIVING_MSG (d1\<lparr>rcvbuf := x\<rparr>))\<lparr>msg_ok := True\<rparr>
      else if l = ''ERROR'' then
        (clear_bit_flag MPWR_F_RECEIVING_MSG (d1\<lparr>rcvbuf := x\<rparr>))\<lparr>msg_ok := False\<rparr>
      else if length (msg (d1\<lparr>rcvbuf := x\<rparr>)) + length l + 1 > MSG_SIZE then
        emit (Dev_warn ''message buffer overflow, ignoring message'') (d1\<lparr>rcvbuf := x\<rparr>)
      else (d1\<lparr>rcvbuf := x\<rparr>)\<lparr>msg := msg (d1\<lparr>rcvbuf := x\<rparr>) @ l @ [NUL]\<rparr>)"
    by (simp only: mpwr_serdev_receive_msg_def assms option.case Let_def
        eg25_receive_msg_rcvbuf d1_def)
  have b: "mpwr_serdev_receive_msg var d l =
     (if \<not> test_bit_flag MPWR_F_RECEIVING_MSG d1 then d1
      else if l = ''OK'' then (clear_bit_flag MPWR_F_RECEIVING_MSG d1)\<lparr>msg_ok := True\<rparr>
      else if l = ''ERROR'' then (clear_bit_flag MPWR_F_RECEIVING_MSG d1)\<lparr>msg_ok := False\<rparr>
      else if length (msg d1) + length l + 1 > MSG_SIZE then
        emit (Dev_warn ''message buffer overflow, ignoring message'') d1
      else d1\<lparr>msg := msg d1 @ l @ [NUL]\<rparr>)"
    by (simp only: mpwr_serdev_receive_msg_def assms option.case Let_def d1_def)
  show ?thesis
    unfolding a b
    by (simp add: test_bit_flag_def clear_bit_flag_def emit_def)
qed

lemma receive_msg_rcvbuf_same:
  assumes "recv_msg var = Some mpwr_eg25_receive_msg"
  shows "rcvbuf (mpwr_serdev_receive_msg var d l) = rcvbuf d"
  using assms
  by (simp add: mpwr_serdev_receive_msg_def Let_def test_bit_flag_def clear_bit_flag_def
      emit_def eg25_receive_msg_frame)

lemma foldl_receive_msg_rcvbuf:
  assumes "recv_msg var = Some mpwr_eg25_receive_msg"
  shows "foldl (mpwr_serdev_receive_msg var) (d\<lparr>rcvbuf := x\<rparr>) ls
         = (foldl (mpwr_serdev_receive_msg var) d ls)\<lparr>rcvbuf := x\<rparr>"
  by (induction ls arbitrary: d) (simp_all add: receive_msg_rcvbuf [OF assms])

lemma emitted_none: "find_first CRLF b = None \<Longrightarrow> emitted b = []"
  by (simp add: emitted_def framed_none)

lemma emitted_some:
  "find_first CRLF b = Some p \<Longrightarrow>
     emitted b = (if p > 0 then [cstr (take p b)] else []) @ emitted (drop (p + 2) b)"
  using framed_some(3) [of b p] by (auto simp add: emitted_def framed_some(1))

lemma rcvbuf_scan_result:
  assumes var: "recv_msg var = Some mpwr_eg25_receive_msg"
  shows "rcvbuf_scan var d = Some
     (if RCVBUF_SIZE - length (framed_rest (rcvbuf d)) = 0 then
        emit (Dev_warn ''rcvbuf overflow'')
          ((foldl (mpwr_serdev_receive_msg var) d (emitted (rcvbuf d)))\<lparr>rcvbuf := []\<rparr>)
      else (foldl (mpwr_serdev_receive_msg var) d (emitted (rcvbuf d)))
             \<lparr>rcvbuf := framed_rest (rcvbuf d)\<rparr>)"
proof (induction "length (rcvbuf d)" arbitrary: d rule: less_induct)
  case less
  show ?case
  proof (cases "find_first CRLF (rcvbuf d)")
    case None
    show ?thesis
      by (subst rcvbuf_scan.simps)
         (simp add: strnstr_def None framed_none emitted_none)
  next
    case (Some p)
    note f = framed_some [OF Some]
    let ?b = "rcvbuf d"
    let ?f = "mpwr_serdev_receive_msg var"
    define d1 where "d1 = (if p > 0 then ?f d (cstr (take p ?b)) else d)"
    define d2 where "d2 = d1\<lparr>rcvbuf := drop (p + 2) ?b\<rparr>"
    have rb: "rcvbuf d1 = ?b"
      by (simp add: d1_def receive_msg_rcvbuf_same [OF var])
    have r2: "rcvbuf d2 = drop (p + 2) ?b" by (simp add: d2_def)
    have shorter: "length (rcvbuf d2) < length ?b" using f(3) by (simp add: r2)
    have step: "rcvbuf_scan var d = rcvbuf_scan var d2"
      by (subst rcvbuf_scan.simps)
         (simp add: strnstr_def Some Let_def d2_def d1_def receive_msg_rcvbuf_same [OF var])
    have e: "foldl ?f d (emitted ?b) = foldl ?f d1 (emitted (drop (p + 2) ?b))"
      by (simp add: emitted_some [OF Some] d1_def)
    have fold: "foldl ?f d2 (emitted (drop (p + 2) ?b))
        = (foldl ?f d (emitted ?b))\<lparr>rcvbuf := drop (p + 2) ?b\<rparr>"
      by (simp add: d2_def foldl_receive_msg_rcvbuf [OF var] e)
    have ih: "rcvbuf_scan var d2 = Some
       (if RCVBUF_SIZE - length (framed_rest (rcvbuf d2)) = 0 then
          emit (Dev_warn ''rcvbuf overflow'')
            ((foldl ?f d2 (emitted (rcvbuf d2)))\<lparr>rcvbuf := []\<rparr>)
        else (foldl ?f d2 (emitted (rcvbuf d2)))\<lparr>rcvbuf := framed_rest (rcvbuf d2)\<rparr>)"
      using less [OF shorter] .
    show ?thesis
      by (simp only: step ih r2 fold f(2)) simp
  qed
qed

lemma cstr_no_NUL: "NUL \<notin> set l \<Longrightarrow> cstr l = l"
  by (auto simp add: cstr_def takeWhile_eq_all_conv)

lemma framed_lines_subset: "l \<in> set (framed_lines b) \<Longrightarrow> set l \<subseteq> set b"
proof -
  assume a: "l \<in> set (framed_lines b)"
  have eq: "b = concat (map (\<lambda>l. l @ CRLF) (framed_lines b)) @ framed_rest b"
    using framed_props [of b] by simp
  have "set l \<subseteq> set (concat (map (\<lambda>l. l @ CRLF) (framed_lines b)))"
    using a by auto
  also have "\<dots> \<subseteq> set b"
    by (metis eq set_append Un_upper1)
  finally show ?thesis .
qed

lemma emitted_no_NUL:
  assumes "NUL \<notin> set b"
  shows "emitted b = filter (\<lambda>l. l \<noteq> []) (framed_lines b)"
proof -
  have "\<forall>l \<in> set (filter (\<lambda>l. l \<noteq> []) (framed_lines b)). cstr l = l"
    using framed_lines_subset [of _ b] assms by (auto intro!: cstr_no_NUL)
  then have "map cstr (filter (\<lambda>l. l \<noteq> []) (framed_lines b))
      = filter (\<lambda>l. l \<noteq> []) (framed_lines b)"
    by (intro map_idI) simp
  then show ?thesis by (simp add: emitted_def)
qed

lemma framed_rest_full:
  assumes "length b \<le> RCVBUF_SIZE"
  shows "(length (framed_rest b) = RCVBUF_SIZE) = (length b = RCVBUF_SIZE \<and> \<not> has_crlf b)"
proof (cases "has_crlf b")
  case True
  then show ?thesis using framed_props [of b] assms by auto
next
  case False
  then show ?thesis by (simp add: has_crlf_def framed_none)
qed

lemma framed_rest_le: "length (framed_rest b) \<le> length b"
  using framed_props [of b] by (cases "has_crlf b") (simp_all add: has_crlf_def framed_none)

lemma sample_framing:
  "appended open_dev sample_bytes = sample_bytes"
  "framed_lines sample_bytes = [[], ''RDY'', ''+CREG: 1'']"
  "framed_rest sample_bytes = ''+CS''"
  "emitted sample_bytes = [''RDY'', ''+CREG: 1'']"
  by (simp_all add: appended_def open_dev_def eg25_probed_def sample_bytes_def RCVBUF_SIZE_def
      framed_lines_def framed_rest_def emitted_def CRLF_def cstr_def NUL_def)

text \<open>
  C3. One call of \<^verbatim>\<open>mpwr_serdev_receive_buf\<close> on the eg25 variant, from any state
  whose buffer holds at most 4096 bytes. The call returns: it consumes the bytes that fit
  into the free part of the buffer and appends exactly these, after the bytes already
  buffered. The buffer after the append splits in one way into lines without terminator
  inside, each followed by the terminator, and a rest without terminator. The non-empty
  lines, and only they, are handed to \<^verbatim>\<open>mpwr_serdev_receive_msg\<close>, once each and in
  order, as C strings (a line without NUL byte is handed over whole); an empty line is
  dropped. The rest stays at the start of the buffer. If the rest fills all 4096 bytes,
  which is the case exactly when the buffer is full and holds no terminator, the buffer is
  emptied and the warning \<^verbatim>\<open>rcvbuf overflow\<close> is logged. On return the buffer holds
  fewer than 4096 bytes, so the next call starts from such a state again.
\<close>

theorem line_framer:
  assumes var: "recv_msg var = Some mpwr_eg25_receive_msg"
    and bound: "length (rcvbuf d) \<le> RCVBUF_SIZE"
  shows "mpwr_serdev_receive_buf var d buf
       = Some (min (RCVBUF_SIZE - length (rcvbuf d)) (length buf),
           if length (framed_rest (appended d buf)) = RCVBUF_SIZE then
             emit (Dev_warn ''rcvbuf overflow'')
               ((foldl (mpwr_serdev_receive_msg var) d (emitted (appended d buf)))
                  \<lparr>rcvbuf := []\<rparr>)
           else (foldl (mpwr_serdev_receive_msg var) d (emitted (appended d buf)))
                  \<lparr>rcvbuf := framed_rest (appended d buf)\<rparr>)
     \<and> appended d buf
         = rcvbuf d @ take (min (RCVBUF_SIZE - length (rcvbuf d)) (length buf)) buf
     \<and> length (appended d buf) \<le> RCVBUF_SIZE
     \<and> concat (map (\<lambda>l. l @ CRLF) (framed_lines (appended d buf)))
           @ framed_rest (appended d buf) = appended d buf
     \<and> (\<forall>l \<in> set (framed_lines (appended d buf)). \<not> has_crlf l)
     \<and> \<not> has_crlf (framed_rest (appended d buf))
     \<and> emitted (appended d buf)
         = map cstr (filter (\<lambda>l. l \<noteq> []) (framed_lines (appended d buf)))
     \<and> (NUL \<notin> set (appended d buf) \<longrightarrow>
          emitted (appended d buf) = filter (\<lambda>l. l \<noteq> []) (framed_lines (appended d buf)))
     \<and> ((length (framed_rest (appended d buf)) = RCVBUF_SIZE)
          = (length (appended d buf) = RCVBUF_SIZE \<and> \<not> has_crlf (appended d buf)))
     \<and> (\<forall>cnt d'. mpwr_serdev_receive_buf var d buf = Some (cnt, d') \<longrightarrow>
          length (rcvbuf d') < RCVBUF_SIZE)"
proof -
  let ?b = "appended d buf"
  let ?f = "mpwr_serdev_receive_msg var"
  let ?cnt = "min (RCVBUF_SIZE - length (rcvbuf d)) (length buf)"
  let ?res = "if length (framed_rest ?b) = RCVBUF_SIZE then
             emit (Dev_warn ''rcvbuf overflow'') ((foldl ?f d (emitted ?b))\<lparr>rcvbuf := []\<rparr>)
           else (foldl ?f d (emitted ?b))\<lparr>rcvbuf := framed_rest ?b\<rparr>"
  have app: "?b = rcvbuf d @ take ?cnt buf"
    by (simp add: appended_def min_def)
  have lb: "length ?b \<le> RCVBUF_SIZE" using bound by (simp add: appended_def)
  have d1: "(if RCVBUF_SIZE - length (rcvbuf d) > 0
             then d\<lparr>rcvbuf := rcvbuf d @ take ?cnt buf\<rparr> else d) = d\<lparr>rcvbuf := ?b\<rparr>"
    by (simp add: app [symmetric]) (simp add: appended_def)
  have cnt: "(if RCVBUF_SIZE - length (rcvbuf d) < length buf
              then RCVBUF_SIZE - length (rcvbuf d) else length buf) = ?cnt"
    by (simp add: min_def)
  have full: "(RCVBUF_SIZE \<le> length (framed_rest ?b)) = (length (framed_rest ?b) = RCVBUF_SIZE)"
    using framed_rest_le [of ?b] lb by auto
  have run: "mpwr_serdev_receive_buf var d buf = Some (?cnt, ?res)"
    unfolding mpwr_serdev_receive_buf_def Let_def cnt d1
    by (simp add: rcvbuf_scan_result [OF var] foldl_receive_msg_rcvbuf [OF var] full)
  have inv: "length (rcvbuf ?res) < RCVBUF_SIZE"
    using framed_rest_le [of ?b] lb by (auto simp add: emit_def RCVBUF_SIZE_def)
  show ?thesis
    using run app lb framed_props [of ?b] emitted_no_NUL [of ?b] framed_rest_full [OF lb] inv
    by (simp add: emitted_def)
qed

theorem line_framer_witness:
  "mpwr_serdev_receive_buf (mpwr_eg25_variant quiet_env no_power_down) open_dev sample_bytes
     = Some (length sample_bytes,
             open_dev\<lparr>rcvbuf := ''+CS'', kfifo := ''+CREG: 1'' @ [CHR 0x0A]\<rparr>)"
proof -
  let ?var = "mpwr_eg25_variant quiet_env no_power_down"
  have v: "recv_msg ?var = Some mpwr_eg25_receive_msg" by (simp add: mpwr_eg25_variant_def)
  have b: "length (rcvbuf open_dev) \<le> RCVBUF_SIZE"
    by (simp add: open_dev_def eg25_probed_def)
  have n: "min (4096 - length (rcvbuf open_dev)) (length sample_bytes) = length sample_bytes"
    by (simp add: open_dev_def eg25_probed_def sample_bytes_def RCVBUF_SIZE_def CRLF_def)
  have f: "mpwr_serdev_receive_msg ?var (mpwr_serdev_receive_msg ?var open_dev ''RDY'') ''+CREG: 1''
      = open_dev\<lparr>kfifo := ''+CREG: 1'' @ [CHR 0x0A]\<rparr>"
    by (simp add: mpwr_serdev_receive_msg_def mpwr_eg25_variant_def mpwr_eg25_receive_msg_def
        open_dev_def eg25_probed_def test_bit_flag_def kfifo_avail_def kfifo_in_def
        KFIFO_SIZE_def Let_def)
  show ?thesis
    using line_framer [OF v b, of sample_bytes, THEN conjunct1]
    by (simp add: sample_framing n f RCVBUF_SIZE_def)
qed

subsection \<open>Event queue and reader\<close>

lemma to_unsigned_int_EFAULT: "to_unsigned_int (- EFAULT) = 4294967282"
  by (simp add: to_unsigned_int_def EFAULT_def)

lemma read_past_latch:
  assumes "\<not> test_bit_flag MPWR_F_OVERFLOW d"
  shows "mpwr_read d nb len fault sg =
     (if kfifo d = [] then
        (if nb then Read_error (- EWOULDBLOCK)
         else if sg then Read_error (- ERESTARTSYS) else Read_sleeps, d)
      else if fault then (Read_count 4294967282, d)
      else (Read_data (take len (kfifo d)), d\<lparr>kfifo := drop len (kfifo d)\<rparr>))"
proof -
  have c: "clear_bit_flag MPWR_F_OVERFLOW d = d"
    using assms by (simp add: clear_bit_flag_def test_bit_flag_def)
  show ?thesis using assms
    by (simp add: mpwr_read_def kfifo_is_empty_def test_and_clear_bit_flag_def c
        test_bit_flag_def kfifo_to_user_def to_unsigned_int_EFAULT)
qed

lemma full_dev_kfifo: "length (kfifo full_dev) = 4095" "kfifo full_dev \<noteq> []"
proof -
  show l: "length (kfifo full_dev) = 4095"
    by (simp add: full_dev_def eg25_probed_def length_concat sum_list_replicate)
  show "kfifo full_dev \<noteq> []" using l by auto
qed

lemma eg25_receive_msg_closed:
  "\<not> test_bit_flag MPWR_F_OPEN d \<Longrightarrow>
     kfifo (mpwr_eg25_receive_msg d l) = kfifo d
     \<and> test_bit_flag MPWR_F_OVERFLOW (mpwr_eg25_receive_msg d l) = test_bit_flag MPWR_F_OVERFLOW d"
  by (simp add: mpwr_eg25_receive_msg_def test_bit_flag_def set_bit_flag_def)

lemma eg25_receive_msg_fits:
  assumes "test_bit_flag MPWR_F_OPEN d" "l \<noteq> ''POWERED DOWN''" "l \<noteq> ''RDY''"
    "length l + 1 \<le> KFIFO_SIZE - length (kfifo d)"
  shows "mpwr_eg25_receive_msg d l = d\<lparr>kfifo := kfifo d @ l @ [CHR 0x0A]\<rparr>"
  using assms
  by (simp add: mpwr_eg25_receive_msg_def test_bit_flag_def kfifo_avail_def kfifo_in_def)

lemma eg25_receive_msg_overflow:
  assumes "test_bit_flag MPWR_F_OPEN d" "l \<noteq> ''POWERED DOWN''" "l \<noteq> ''RDY''"
    "length l + 1 > KFIFO_SIZE - length (kfifo d)"
  shows "mpwr_eg25_receive_msg d l = set_bit_flag MPWR_F_OVERFLOW d"
  using assms
  by (simp add: mpwr_eg25_receive_msg_def test_bit_flag_def kfifo_avail_def
      test_and_set_bit_flag_def)

lemma set_bit_flag_idem: "set_bit_flag f (set_bit_flag f d) = set_bit_flag f d"
  by (simp add: set_bit_flag_def)

lemma eg25_overflow_repeat:
  assumes "test_bit_flag MPWR_F_OPEN d"
    "\<forall>l \<in> set ls. l \<noteq> ''POWERED DOWN'' \<and> l \<noteq> ''RDY''
        \<and> length l + 1 > KFIFO_SIZE - length (kfifo d)"
  shows "foldl mpwr_eg25_receive_msg (set_bit_flag MPWR_F_OVERFLOW d) ls
         = set_bit_flag MPWR_F_OVERFLOW d"
  using assms
proof (induction ls)
  case Nil
  show ?case by simp
next
  case (Cons l ls)
  have o: "test_bit_flag MPWR_F_OPEN (set_bit_flag MPWR_F_OVERFLOW d)"
    using Cons.prems(1) by (simp add: test_bit_flag_def set_bit_flag_def)
  have "mpwr_eg25_receive_msg (set_bit_flag MPWR_F_OVERFLOW d) l
        = set_bit_flag MPWR_F_OVERFLOW (set_bit_flag MPWR_F_OVERFLOW d)"
    using eg25_receive_msg_overflow [OF o, of l] Cons.prems(2) by (simp add: set_bit_flag_def)
  then show ?case using Cons by (simp add: set_bit_flag_idem)
qed

lemma bit_flag_frame:
  "flags (set_bit_flag f d) = insert f (flags d)" "kfifo (set_bit_flag f d) = kfifo d"
  "flags (clear_bit_flag f d) = flags d - {f}" "kfifo (clear_bit_flag f d) = kfifo d"
  by (simp_all add: set_bit_flag_def clear_bit_flag_def)

lemma full_dev_flags: "flags full_dev = {MPWR_F_OPEN}"
  by (simp add: full_dev_def)

lemma full_dev_latch_cleared:
  "clear_bit_flag MPWR_F_OVERFLOW (set_bit_flag MPWR_F_OVERFLOW full_dev) = full_dev"
proof -
  have "flags full_dev - {MPWR_F_OVERFLOW} = flags full_dev" by (simp add: full_dev_flags)
  then show ?thesis by (simp add: clear_bit_flag_def set_bit_flag_def)
qed

lemma receive_msg_queue:
  assumes "recv_msg var = Some mpwr_eg25_receive_msg"
  shows "kfifo (mpwr_serdev_receive_msg var d l) = kfifo (mpwr_eg25_receive_msg d l)"
    and "test_bit_flag MPWR_F_OPEN (mpwr_serdev_receive_msg var d l) = test_bit_flag MPWR_F_OPEN d"
  using assms
  by (auto simp add: mpwr_serdev_receive_msg_def Let_def test_bit_flag_def clear_bit_flag_def
      emit_def mpwr_eg25_receive_msg_def set_bit_flag_def test_and_set_bit_flag_def)

lemma receive_msg_idle:
  assumes "recv_msg var = Some mpwr_eg25_receive_msg" "\<not> test_bit_flag MPWR_F_RECEIVING_MSG d"
  shows "mpwr_serdev_receive_msg var d l = mpwr_eg25_receive_msg d l"
  using assms
  by (simp add: mpwr_serdev_receive_msg_def Let_def test_bit_flag_def eg25_receive_msg_frame)

lemma foldl_receive_msg_idle:
  assumes "recv_msg var = Some mpwr_eg25_receive_msg" "\<not> test_bit_flag MPWR_F_RECEIVING_MSG d"
  shows "foldl (mpwr_serdev_receive_msg var) d ls = foldl mpwr_eg25_receive_msg d ls"
  using assms(2)
proof (induction ls arbitrary: d)
  case Nil
  show ?case by simp
next
  case (Cons l ls)
  have "\<not> test_bit_flag MPWR_F_RECEIVING_MSG (mpwr_eg25_receive_msg d l)"
    using Cons.prems by (simp add: test_bit_flag_def eg25_receive_msg_frame)
  then show ?case
    using Cons.IH [of "mpwr_eg25_receive_msg d l"] receive_msg_idle [OF assms(1) Cons.prems]
    by simp
qed

lemma foldl_receive_msg_queue:
  assumes var: "recv_msg var = Some mpwr_eg25_receive_msg"
    and "test_bit_flag MPWR_F_OPEN d"
    and "\<forall>l \<in> set ls. l \<noteq> ''POWERED DOWN'' \<and> l \<noteq> ''RDY''"
    and "length (kfifo d) + length (concat (map (\<lambda>l. l @ [CHR 0x0A]) ls)) \<le> KFIFO_SIZE"
  shows "kfifo (foldl (mpwr_serdev_receive_msg var) d ls)
         = kfifo d @ concat (map (\<lambda>l. l @ [CHR 0x0A]) ls)"
  using assms(2-)
proof (induction ls arbitrary: d)
  case Nil
  show ?case by simp
next
  case (Cons l ls)
  let ?d1 = "mpwr_serdev_receive_msg var d l"
  have fits: "length l + 1 \<le> KFIFO_SIZE - length (kfifo d)" using Cons.prems(3) by simp
  have k1: "kfifo ?d1 = kfifo d @ l @ [CHR 0x0A]"
    using receive_msg_queue(1) [OF var, of d l] eg25_receive_msg_fits [OF Cons.prems(1) _ _ fits]
      Cons.prems(2) by simp
  have o1: "test_bit_flag MPWR_F_OPEN ?d1"
    using receive_msg_queue(2) [OF var, of d l] Cons.prems(1) by simp
  have room: "length (kfifo ?d1) + length (concat (map (\<lambda>l. l @ [CHR 0x0A]) ls)) \<le> KFIFO_SIZE"
    using Cons.prems(3) k1 by simp
  show ?case using Cons.IH [OF o1 _ room] Cons.prems(2) k1 by simp
qed

lemma wait_reply_foldl:
  assumes "recv_msg var = Some mpwr_eg25_receive_msg" "MPWR_F_RECEIVING_MSG \<in> flags d"
    "\<forall>l \<in> set ls. \<not> is_terminal l"
  shows "wait_reply var d ls = foldl (mpwr_serdev_receive_msg var) d ls"
  using assms(2,3)
proof (induction ls arbitrary: d)
  case Nil
  show ?case by simp
next
  case (Cons l ls)
  have "MPWR_F_RECEIVING_MSG \<in> flags (mpwr_serdev_receive_msg var d l)"
    using receive_msg_nonterminal(1) [OF assms(1) Cons.prems(1)] Cons.prems(2) by simp
  then show ?case using Cons by (simp add: test_bit_flag_def)
qed

text \<open>
  C2. On the eg25 variant, with a reader session open and room in the queue, every line
  handed to \<^verbatim>\<open>mpwr_serdev_receive_msg\<close> that is not one of the two power notices
  reaches the event dispatcher and is queued for the reader, in arrival order, whether or
  not a command is outstanding when it arrives. While no command is outstanding the
  dispatcher alone handles the lines. While a command is outstanding its lines are handled
  by the dispatcher and also appended to the response of the command.
\<close>

theorem dispatcher_sees_every_line:
  assumes var: "recv_msg var = Some mpwr_eg25_receive_msg"
    and opn: "test_bit_flag MPWR_F_OPEN d"
    and urc: "\<forall>l \<in> set ls. l \<noteq> ''POWERED DOWN'' \<and> l \<noteq> ''RDY''"
    and room: "length (kfifo d) + length (concat (map (\<lambda>l. l @ [CHR 0x0A]) ls)) \<le> KFIFO_SIZE"
  shows "kfifo (foldl (mpwr_serdev_receive_msg var) d ls)
           = kfifo d @ concat (map (\<lambda>l. l @ [CHR 0x0A]) ls)
     \<and> (\<not> test_bit_flag MPWR_F_RECEIVING_MSG d \<longrightarrow>
          foldl (mpwr_serdev_receive_msg var) d ls = foldl mpwr_eg25_receive_msg d ls)
     \<and> (test_bit_flag MPWR_F_RECEIVING_MSG d \<and> (\<forall>l \<in> set ls. \<not> is_terminal l)
          \<and> length (msg d) + length (pack ls) \<le> MSG_SIZE \<longrightarrow>
          msg (foldl (mpwr_serdev_receive_msg var) d ls) = msg d @ pack ls)"
proof -
  have p3: "test_bit_flag MPWR_F_RECEIVING_MSG d \<and> (\<forall>l \<in> set ls. \<not> is_terminal l)
          \<and> length (msg d) + length (pack ls) \<le> MSG_SIZE \<longrightarrow>
          msg (foldl (mpwr_serdev_receive_msg var) d ls) = msg d @ pack ls"
  proof (intro impI, elim conjE)
    assume h: "test_bit_flag MPWR_F_RECEIVING_MSG d" "\<forall>l \<in> set ls. \<not> is_terminal l"
      "length (msg d) + length (pack ls) \<le> MSG_SIZE"
    have r: "MPWR_F_RECEIVING_MSG \<in> flags d" using h(1) by (simp add: test_bit_flag_def)
    show "msg (foldl (mpwr_serdev_receive_msg var) d ls) = msg d @ pack ls"
      using wait_reply_nonterminal [OF var r h(2)] wait_reply_foldl [OF var r h(2)]
        accumulated_all [OF h(3)] by simp
  qed
  show ?thesis
    using foldl_receive_msg_queue [OF var opn urc room] foldl_receive_msg_idle [OF var] p3
    by blast
qed

theorem dispatcher_sees_every_line_witness:
  "kfifo (foldl (mpwr_serdev_receive_msg (mpwr_eg25_variant quiet_env no_power_down))
       open_busy_dev [''+TEST: 1'', ''OK'', ''+CREG: 1''])
     = ''+TEST: 1'' @ [CHR 0x0A] @ ''OK'' @ [CHR 0x0A] @ ''+CREG: 1'' @ [CHR 0x0A]"
  using dispatcher_sees_every_line [of "mpwr_eg25_variant quiet_env no_power_down" open_busy_dev
      "[''+TEST: 1'', ''OK'', ''+CREG: 1'']"]
  by (simp add: mpwr_eg25_variant_def open_busy_dev_def eg25_probed_def test_bit_flag_def
      KFIFO_SIZE_def)

text \<open>
  A line that arrives while a command is outstanding is not delivered to the command
  engine only: the response line \<^verbatim>\<open>+TEST: 1\<close> ends up in the response buffer of the
  command and in the queue of the reader.
\<close>

theorem line_delivered_twice_counterexample:
  "test_bit_flag MPWR_F_RECEIVING_MSG open_busy_dev
   \<and> kfifo (mpwr_serdev_receive_msg (mpwr_eg25_variant quiet_env no_power_down)
        open_busy_dev ''+TEST: 1'') = ''+TEST: 1'' @ [CHR 0x0A]
   \<and> msg (mpwr_serdev_receive_msg (mpwr_eg25_variant quiet_env no_power_down)
        open_busy_dev ''+TEST: 1'') = ''+TEST: 1'' @ [NUL]"
  by (simp add: mpwr_serdev_receive_msg_def mpwr_eg25_variant_def mpwr_eg25_receive_msg_def
      open_busy_dev_def eg25_probed_def test_bit_flag_def kfifo_avail_def kfifo_in_def
      KFIFO_SIZE_def MSG_SIZE_def Let_def)

text \<open>
  C5. The event queue of the eg25 variant. A line that arrives while no reader session is
  open changes neither the queue nor the overflow latch. While a session is open, a line
  that fits (its bytes and a line feed) is appended to the queue; a line that does not fit
  is dropped and latches \<^verbatim>\<open>MPWR_F_OVERFLOW\<close>, the queue stays as it was, and any
  number of such lines in a row leave the same state as one of them: the latch does not
  stack. A read that reaches the latch with a writable buffer of at least 9 bytes returns
  the marker \<^verbatim>\<open>OVERFLOW\<close> and a line feed, clears the latch and leaves the queue
  intact; the read after it hands out the queued bytes in order, not the marker again.
\<close>

theorem event_queue_overflow:
  "(\<not> test_bit_flag MPWR_F_OPEN d \<longrightarrow>
      kfifo (mpwr_eg25_receive_msg d l) = kfifo d
      \<and> test_bit_flag MPWR_F_OVERFLOW (mpwr_eg25_receive_msg d l)
          = test_bit_flag MPWR_F_OVERFLOW d)
   \<and> (test_bit_flag MPWR_F_OPEN d \<and> l \<noteq> ''POWERED DOWN'' \<and> l \<noteq> ''RDY''
        \<and> length l + 1 \<le> KFIFO_SIZE - length (kfifo d) \<longrightarrow>
      mpwr_eg25_receive_msg d l = d\<lparr>kfifo := kfifo d @ l @ [CHR 0x0A]\<rparr>)
   \<and> (test_bit_flag MPWR_F_OPEN d
        \<and> (\<forall>x \<in> set (l # ls). x \<noteq> ''POWERED DOWN'' \<and> x \<noteq> ''RDY''
              \<and> length x + 1 > KFIFO_SIZE - length (kfifo d)) \<longrightarrow>
      mpwr_eg25_receive_msg d l = set_bit_flag MPWR_F_OVERFLOW d
      \<and> foldl mpwr_eg25_receive_msg d (l # ls) = set_bit_flag MPWR_F_OVERFLOW d
      \<and> kfifo (set_bit_flag MPWR_F_OVERFLOW d) = kfifo d)
   \<and> (test_bit_flag MPWR_F_OVERFLOW d \<and> 9 \<le> len \<and> \<not> fault \<and> (\<not> nb \<or> kfifo d \<noteq> []) \<longrightarrow>
      mpwr_read d nb len fault sg = (Read_data OVERFLOW_MARKER, clear_bit_flag MPWR_F_OVERFLOW d)
      \<and> kfifo (clear_bit_flag MPWR_F_OVERFLOW d) = kfifo d
      \<and> (kfifo d \<noteq> [] \<longrightarrow>
           mpwr_read (clear_bit_flag MPWR_F_OVERFLOW d) nb2 len2 False sg2
           = (Read_data (take len2 (kfifo d)),
              (clear_bit_flag MPWR_F_OVERFLOW d)\<lparr>kfifo := drop len2 (kfifo d)\<rparr>)))"
proof -
  have p3: "test_bit_flag MPWR_F_OPEN d
        \<and> (\<forall>x \<in> set (l # ls). x \<noteq> ''POWERED DOWN'' \<and> x \<noteq> ''RDY''
              \<and> length x + 1 > KFIFO_SIZE - length (kfifo d)) \<longrightarrow>
      mpwr_eg25_receive_msg d l = set_bit_flag MPWR_F_OVERFLOW d
      \<and> foldl mpwr_eg25_receive_msg d (l # ls) = set_bit_flag MPWR_F_OVERFLOW d
      \<and> kfifo (set_bit_flag MPWR_F_OVERFLOW d) = kfifo d"
  proof (intro impI, elim conjE)
    assume h: "test_bit_flag MPWR_F_OPEN d"
      "\<forall>x \<in> set (l # ls). x \<noteq> ''POWERED DOWN'' \<and> x \<noteq> ''RDY''
              \<and> length x + 1 > KFIFO_SIZE - length (kfifo d)"
    have one: "mpwr_eg25_receive_msg d l = set_bit_flag MPWR_F_OVERFLOW d"
      using eg25_receive_msg_overflow [OF h(1), of l] h(2) by simp
    have rest: "\<forall>x \<in> set ls. x \<noteq> ''POWERED DOWN'' \<and> x \<noteq> ''RDY''
              \<and> length x + 1 > KFIFO_SIZE - length (kfifo d)"
      using h(2) by simp
    show "mpwr_eg25_receive_msg d l = set_bit_flag MPWR_F_OVERFLOW d
      \<and> foldl mpwr_eg25_receive_msg d (l # ls) = set_bit_flag MPWR_F_OVERFLOW d
      \<and> kfifo (set_bit_flag MPWR_F_OVERFLOW d) = kfifo d"
      using one eg25_overflow_repeat [OF h(1) rest] by (simp add: set_bit_flag_def)
  qed
  have p4: "test_bit_flag MPWR_F_OVERFLOW d \<and> 9 \<le> len \<and> \<not> fault \<and> (\<not> nb \<or> kfifo d \<noteq> []) \<longrightarrow>
      mpwr_read d nb len fault sg = (Read_data OVERFLOW_MARKER, clear_bit_flag MPWR_F_OVERFLOW d)
      \<and> kfifo (clear_bit_flag MPWR_F_OVERFLOW d) = kfifo d
      \<and> (kfifo d \<noteq> [] \<longrightarrow>
           mpwr_read (clear_bit_flag MPWR_F_OVERFLOW d) nb2 len2 False sg2
           = (Read_data (take len2 (kfifo d)),
              (clear_bit_flag MPWR_F_OVERFLOW d)\<lparr>kfifo := drop len2 (kfifo d)\<rparr>))"
  proof (intro impI, elim conjE)
    assume h: "test_bit_flag MPWR_F_OVERFLOW d" "9 \<le> len" "\<not> fault" "\<not> nb \<or> kfifo d \<noteq> []"
    have a: "mpwr_read d nb len fault sg
        = (Read_data OVERFLOW_MARKER, clear_bit_flag MPWR_F_OVERFLOW d)"
      using h
      by (auto simp add: mpwr_read_def kfifo_is_empty_def test_and_clear_bit_flag_def
          test_bit_flag_def)
    have b: "\<not> test_bit_flag MPWR_F_OVERFLOW (clear_bit_flag MPWR_F_OVERFLOW d)"
      by (simp add: test_bit_flag_def clear_bit_flag_def)
    have k: "kfifo (clear_bit_flag MPWR_F_OVERFLOW d) = kfifo d"
      by (simp add: clear_bit_flag_def)
    show "mpwr_read d nb len fault sg = (Read_data OVERFLOW_MARKER, clear_bit_flag MPWR_F_OVERFLOW d)
      \<and> kfifo (clear_bit_flag MPWR_F_OVERFLOW d) = kfifo d
      \<and> (kfifo d \<noteq> [] \<longrightarrow>
           mpwr_read (clear_bit_flag MPWR_F_OVERFLOW d) nb2 len2 False sg2
           = (Read_data (take len2 (kfifo d)),
              (clear_bit_flag MPWR_F_OVERFLOW d)\<lparr>kfifo := drop len2 (kfifo d)\<rparr>))"
      using a k read_past_latch [OF b, of nb2 len2 False sg2] by simp
  qed
  show ?thesis
    using eg25_receive_msg_closed [of d l] eg25_receive_msg_fits [of d l] p3 p4 by blast
qed

theorem event_queue_overflow_witness:
  "mpwr_eg25_receive_msg full_dev ''+CREG: 1'' = set_bit_flag MPWR_F_OVERFLOW full_dev
   \<and> foldl mpwr_eg25_receive_msg full_dev [''+CREG: 1'', ''+CREG: 2'']
       = set_bit_flag MPWR_F_OVERFLOW full_dev
   \<and> mpwr_read (set_bit_flag MPWR_F_OVERFLOW full_dev) False 64 False False
       = (Read_data OVERFLOW_MARKER, full_dev)
   \<and> fst (mpwr_read full_dev False 64 False False) = Read_data (take 64 (kfifo full_dev))"
proof -
  have o: "test_bit_flag MPWR_F_OPEN full_dev" by (simp add: full_dev_flags test_bit_flag_def)
  have big: "\<forall>x \<in> set [''+CREG: 1'', ''+CREG: 2'']. x \<noteq> ''POWERED DOWN'' \<and> x \<noteq> ''RDY''
      \<and> length x + 1 > KFIFO_SIZE - length (kfifo full_dev)"
    by (simp add: full_dev_kfifo KFIFO_SIZE_def)
  have l: "test_bit_flag MPWR_F_OVERFLOW (set_bit_flag MPWR_F_OVERFLOW full_dev)"
    by (simp add: test_bit_flag_def bit_flag_frame)
  have k: "kfifo (set_bit_flag MPWR_F_OVERFLOW full_dev) \<noteq> []"
    by (simp add: bit_flag_frame full_dev_kfifo)
  note e1 = event_queue_overflow [of full_dev "''+CREG: 1''" "[''+CREG: 2'']" 64 False False
      False False 64 False, THEN conjunct2, THEN conjunct2, THEN conjunct1]
  note e2 = event_queue_overflow [of "set_bit_flag MPWR_F_OVERFLOW full_dev" "''+CREG: 1''"
      "[''+CREG: 2'']" 64 False False False False 64 False,
      THEN conjunct2, THEN conjunct2, THEN conjunct2]
  have a: "mpwr_eg25_receive_msg full_dev ''+CREG: 1'' = set_bit_flag MPWR_F_OVERFLOW full_dev
    \<and> foldl mpwr_eg25_receive_msg full_dev [''+CREG: 1'', ''+CREG: 2'']
       = set_bit_flag MPWR_F_OVERFLOW full_dev"
    using e1 o big by blast
  have b: "mpwr_read (set_bit_flag MPWR_F_OVERFLOW full_dev) False 64 False False
       = (Read_data OVERFLOW_MARKER, clear_bit_flag MPWR_F_OVERFLOW (set_bit_flag MPWR_F_OVERFLOW full_dev))
    \<and> mpwr_read (clear_bit_flag MPWR_F_OVERFLOW (set_bit_flag MPWR_F_OVERFLOW full_dev))
          False 64 False False
       = (Read_data (take 64 (kfifo (set_bit_flag MPWR_F_OVERFLOW full_dev))),
          (clear_bit_flag MPWR_F_OVERFLOW (set_bit_flag MPWR_F_OVERFLOW full_dev))
            \<lparr>kfifo := drop 64 (kfifo (set_bit_flag MPWR_F_OVERFLOW full_dev))\<rparr>)"
    using e2 l k by simp
  have c: "mpwr_read (set_bit_flag MPWR_F_OVERFLOW full_dev) False 64 False False
       = (Read_data OVERFLOW_MARKER, full_dev)
    \<and> fst (mpwr_read full_dev False 64 False False) = Read_data (take 64 (kfifo full_dev))"
    using b by (simp add: full_dev_latch_cleared bit_flag_frame)
  show ?thesis using a c by blast
qed

text \<open>
  The marker is not delivered in every overflow episode. With one byte left in the queue
  the line \<^verbatim>\<open>+CREG: 1\<close> latches the overflow; a read with a buffer of 8 bytes
  returns \<^verbatim>\<open>-E2BIG\<close> and leaves the device as it was before the overflow, latch
  clear; the next read drains the whole queue. No read has returned the marker.
\<close>

theorem marker_lost_counterexample:
  "test_bit_flag MPWR_F_OVERFLOW (mpwr_eg25_receive_msg full_dev ''+CREG: 1'')
   \<and> mpwr_read (mpwr_eg25_receive_msg full_dev ''+CREG: 1'') False 8 False False
       = (Read_error (- E2BIG), full_dev)
   \<and> \<not> test_bit_flag MPWR_F_OVERFLOW full_dev
   \<and> fst (mpwr_read full_dev False 4096 False False) = Read_data (kfifo full_dev)
   \<and> kfifo (snd (mpwr_read full_dev False 4096 False False)) = []"
proof -
  have o: "test_bit_flag MPWR_F_OPEN full_dev" by (simp add: full_dev_flags test_bit_flag_def)
  have d: "mpwr_eg25_receive_msg full_dev ''+CREG: 1'' = set_bit_flag MPWR_F_OVERFLOW full_dev"
    using eg25_receive_msg_overflow [OF o, of "''+CREG: 1''"]
    by (simp add: full_dev_kfifo KFIFO_SIZE_def)
  have n: "\<not> test_bit_flag MPWR_F_OVERFLOW full_dev"
    by (simp add: full_dev_flags test_bit_flag_def)
  have r1: "mpwr_read (set_bit_flag MPWR_F_OVERFLOW full_dev) False 8 False False
       = (Read_error (- E2BIG), full_dev)"
    by (simp add: mpwr_read_def kfifo_is_empty_def test_and_clear_bit_flag_def
        full_dev_latch_cleared test_bit_flag_def bit_flag_frame full_dev_kfifo)
  show ?thesis
    using d n r1 read_past_latch [OF n, of False 4096 False False] full_dev_kfifo
    by (simp add: test_bit_flag_def bit_flag_frame)
qed

text \<open>
  C10. A read that reaches the overflow latch (it is not turned away by the non-blocking
  check on an empty queue) with a user buffer shorter than the 9 bytes of the marker: the
  latch is cleared by \<^verbatim>\<open>test_and_clear_bit\<close> before the length is looked at, the
  call returns \<^verbatim>\<open>-E2BIG\<close> and delivers nothing, and the queue is untouched. The
  marker of this overflow is lost: the next read, whatever its buffer, behaves as a read
  with no overflow latched. It never returns the marker: on an empty queue it returns
  \<^verbatim>\<open>-EWOULDBLOCK\<close> or \<^verbatim>\<open>-ERESTARTSYS\<close> or sleeps, on a non-empty queue it hands
  out the queued bytes, or, when the user buffer is not writable, it copies nothing and
  returns the \<^verbatim>\<open>-EFAULT\<close> of \<^verbatim>\<open>kfifo_to_user\<close> converted to
  \<^verbatim>\<open>unsigned int\<close>, the positive value 4294967282.
\<close>

theorem read_short_buffer:
  assumes "test_bit_flag MPWR_F_OVERFLOW d" and "len < 9" and "\<not> nb \<or> kfifo d \<noteq> []"
  shows "mpwr_read d nb len fault sg = (Read_error (- E2BIG), clear_bit_flag MPWR_F_OVERFLOW d)
    \<and> \<not> test_bit_flag MPWR_F_OVERFLOW (clear_bit_flag MPWR_F_OVERFLOW d)
    \<and> kfifo (clear_bit_flag MPWR_F_OVERFLOW d) = kfifo d
    \<and> mpwr_read (clear_bit_flag MPWR_F_OVERFLOW d) nb2 len2 fault2 sg2 =
        (if kfifo d = [] then
           (if nb2 then Read_error (- EWOULDBLOCK)
            else if sg2 then Read_error (- ERESTARTSYS) else Read_sleeps,
            clear_bit_flag MPWR_F_OVERFLOW d)
         else if fault2 then (Read_count 4294967282, clear_bit_flag MPWR_F_OVERFLOW d)
         else (Read_data (take len2 (kfifo d)),
               (clear_bit_flag MPWR_F_OVERFLOW d)\<lparr>kfifo := drop len2 (kfifo d)\<rparr>))"
proof -
  have a: "mpwr_read d nb len fault sg = (Read_error (- E2BIG), clear_bit_flag MPWR_F_OVERFLOW d)"
    using assms
    by (auto simp add: mpwr_read_def kfifo_is_empty_def test_and_clear_bit_flag_def test_bit_flag_def)
  have b: "\<not> test_bit_flag MPWR_F_OVERFLOW (clear_bit_flag MPWR_F_OVERFLOW d)"
    by (simp add: test_bit_flag_def clear_bit_flag_def)
  have k: "kfifo (clear_bit_flag MPWR_F_OVERFLOW d) = kfifo d"
    by (simp add: clear_bit_flag_def)
  show ?thesis using a b k read_past_latch [OF b, of nb2 len2 fault2 sg2] by simp
qed

theorem read_short_buffer_witness:
  "fst (mpwr_read (mpwr_eg25_receive_msg full_dev ''+CREG: 1'') False 8 False False)
     = Read_error (- E2BIG)
   \<and> fst (mpwr_read (snd (mpwr_read (mpwr_eg25_receive_msg full_dev ''+CREG: 1'') False 8 False False))
        False 64 False False) = Read_data (take 64 (kfifo full_dev))
   \<and> fst (mpwr_read (snd (mpwr_read (mpwr_eg25_receive_msg full_dev ''+CREG: 1'') False 8 False False))
        False 64 True False) = Read_count 4294967282"
proof -
  let ?d = "mpwr_eg25_receive_msg full_dev ''+CREG: 1''"
  have d: "?d = set_bit_flag MPWR_F_OVERFLOW full_dev"
    using full_dev_kfifo(1)
    by (simp add: mpwr_eg25_receive_msg_def test_bit_flag_def kfifo_avail_def KFIFO_SIZE_def
        test_and_set_bit_flag_def full_dev_def)
  have h1: "test_bit_flag MPWR_F_OVERFLOW ?d" by (simp add: d test_bit_flag_def set_bit_flag_def)
  have h3: "\<not> False \<or> kfifo ?d \<noteq> []" by simp
  have k: "kfifo ?d = kfifo full_dev" by (simp add: d set_bit_flag_def)
  show ?thesis
    using read_short_buffer [OF h1 _ h3, of 8 False False False 64 False False]
      read_short_buffer [OF h1 _ h3, of 8 False False False 64 True False] k full_dev_kfifo(2)
    by simp
qed

subsection \<open>Power sequencer\<close>

lemma op_frame:
  "flags (emit e d) = flags d" "wired (emit e d) = wired d"
  "status_pwrkey_multiplexed (emit e d) = status_pwrkey_multiplexed d"
  "regulator_enabled (emit e d) = regulator_enabled d" "now (emit e d) = now d"
  "gpio_state (emit e d) = gpio_state d" "trace (emit e d) = trace d @ [e]"
  "flags (msleep n d) = flags d" "wired (msleep n d) = wired d"
  "status_pwrkey_multiplexed (msleep n d) = status_pwrkey_multiplexed d"
  "regulator_enabled (msleep n d) = regulator_enabled d" "now (msleep n d) = now d + n"
  "gpio_state (msleep n d) = gpio_state d" "trace (msleep n d) = trace d @ [Msleep n]"
  by (simp_all add: emit_def msleep_def)

lemma gpiod_frame:
  "flags (gpiod_direction_output g v d) = flags d"
  "wired (gpiod_direction_output g v d) = wired d"
  "status_pwrkey_multiplexed (gpiod_direction_output g v d) = status_pwrkey_multiplexed d"
  "regulator_enabled (gpiod_direction_output g v d) = regulator_enabled d"
  "now (gpiod_direction_output g v d) = now d"
  "notified a (gpiod_direction_output g v d) = notified a d"
  "flags (gpiod_direction_input g d) = flags d"
  "wired (gpiod_direction_input g d) = wired d"
  "status_pwrkey_multiplexed (gpiod_direction_input g d) = status_pwrkey_multiplexed d"
  "regulator_enabled (gpiod_direction_input g d) = regulator_enabled d"
  "now (gpiod_direction_input g d) = now d"
  "notified a (gpiod_direction_input g d) = notified a d"
  "flags (gpiod_set_value g v d) = flags d"
  "wired (gpiod_set_value g v d) = wired d"
  "status_pwrkey_multiplexed (gpiod_set_value g v d) = status_pwrkey_multiplexed d"
  "regulator_enabled (gpiod_set_value g v d) = regulator_enabled d"
  "now (gpiod_set_value g v d) = now d"
  "notified a (gpiod_set_value g v d) = notified a d"
  by (simp_all add: gpiod_direction_output_def gpiod_direction_input_def gpiod_set_value_def
      op_frame notified_def)

lemma notified_frame:
  "notified a (msleep n d) = notified a d"
  "notified a (emit (Dev_warn w) d) = notified a d"
  "notified a (emit (Dev_err w) d) = notified a d"
  "notified a (regulator_enable r d) = notified a d"
  "notified a (regulator_disable d) = notified a d"
  "notified a (sysfs_notify b d) = notified a d + (if a = b then 1 else 0)"
  "notified a (set_bit_flag f d) = notified a d"
  "notified a (clear_bit_flag f d) = notified a d"
  by (simp_all add: notified_def op_frame regulator_enable_def regulator_disable_def
      sysfs_notify_def set_bit_flag_def clear_bit_flag_def)

lemma regulator_frame:
  "flags (regulator_enable r d) = flags d" "wired (regulator_enable r d) = wired d"
  "status_pwrkey_multiplexed (regulator_enable r d) = status_pwrkey_multiplexed d"
  "now (regulator_enable r d) = now d"
  "flags (regulator_disable d) = flags d" "wired (regulator_disable d) = wired d"
  "gpio_state (regulator_disable d) = gpio_state d"
  "regulator_enabled (regulator_disable d) = False"
  "trace (regulator_disable d) = trace (d) @ [Regulator_disable]"
  by (simp_all add: regulator_enable_def regulator_disable_def op_frame)

lemma drive_defaults_frame:
  "flags (eg25_drive_defaults fb d) = flags d" "wired (eg25_drive_defaults fb d) = wired d"
  "status_pwrkey_multiplexed (eg25_drive_defaults fb d) = status_pwrkey_multiplexed d"
  "now (eg25_drive_defaults fb d) = now d"
  "notified a (eg25_drive_defaults fb d) = notified a d"
  by (simp_all add: eg25_drive_defaults_def Let_def gpiod_frame)

lemma pwrkey_pulse_frame:
  "flags (eg25_pwrkey_pulse d) = flags d" "wired (eg25_pwrkey_pulse d) = wired d"
  "status_pwrkey_multiplexed (eg25_pwrkey_pulse d) = status_pwrkey_multiplexed d"
  "now (eg25_pwrkey_pulse d) = now d + 250"
  "notified a (eg25_pwrkey_pulse d) = notified a d"
  by (simp_all add: eg25_pwrkey_pulse_def Let_def gpiod_frame op_frame notified_frame)

declare eg25_wait_powerup.simps [simp del]

lemma wait_powerup_frame:
  "flags (snd (eg25_wait_powerup env start w s d)) = flags d
   \<and> wired (snd (eg25_wait_powerup env start w s d)) = wired d
   \<and> status_pwrkey_multiplexed (snd (eg25_wait_powerup env start w s d))
       = status_pwrkey_multiplexed d
   \<and> notified a (snd (eg25_wait_powerup env start w s d)) = notified a d"
proof (induction env start w s d rule: eg25_wait_powerup.induct)
  case (1 env start wakeup_ok status_ok d)
  show ?case
    using "1.IH"
    by (subst (1 2 3 4) eg25_wait_powerup.simps)
       (auto simp add: Let_def op_frame notified_frame)
qed

lemma wait_powerup_no_wakeup:
  assumes win: "\<forall>t. start \<le> t \<and> t < start + 10000 \<longrightarrow> \<not> env_wakeup env t"
  shows "\<not> w \<Longrightarrow> start \<le> now d \<Longrightarrow> \<not> fst (fst (eg25_wait_powerup env start w s d))"
  using win
proof (induction env start w s d rule: eg25_wait_powerup.induct)
  case (1 env start w s d)
  show ?case
  proof (cases "int (now d) - int start < 10000")
    case False
    then show ?thesis using "1.prems"(1)
      by (subst eg25_wait_powerup.simps) simp
  next
    case True
    have "now d < start + 10000" using True by linarith
    then have nw: "\<not> env_wakeup env (now d)" using "1.prems"(2,3) by blast
    define s' where "s' = (if \<not> s \<and> wired d Status_gpio \<and> \<not> env_status env (now d) then True else s)"
    have w': "(if \<not> w \<and> wired d Wakeup_gpio \<and> env_wakeup env (now d) then True else w) = False"
      using nw "1.prems"(1) by simp
    have later: "start \<le> now (msleep 50 d)" using "1.prems"(2) by (simp add: op_frame)
    have ih: "\<not> fst (fst (eg25_wait_powerup env start False s' (msleep 50 d)))"
      using "1.IH" [OF True w' [symmetric] s'_def] later "1.prems"(3) by simp
    have "eg25_wait_powerup env start w s d = eg25_wait_powerup env start False s' (msleep 50 d)"
      by (subst eg25_wait_powerup.simps) (simp only: True w' s'_def [symmetric] Let_def simp_thms if_True if_False)
    then show ?thesis using ih by simp
  qed
qed

lemma undriven_input:
  "undriven (gpiod_direction_input g d) g"
  "undriven d g' \<Longrightarrow> undriven (gpiod_direction_input g d) g'"
  by (simp_all add: undriven_def gpiod_direction_input_def op_frame)

lemma err_shutdown_noclose_post:
  "fst (eg25_err_shutdown_noclose d) = - ENODEV"
  "flags (snd (eg25_err_shutdown_noclose d)) = flags d"
  "\<not> regulator_enabled (snd (eg25_err_shutdown_noclose d))"
  "notified a (snd (eg25_err_shutdown_noclose d)) = notified a d"
  "\<forall>g \<in> set (control_lines d). undriven (snd (eg25_err_shutdown_noclose d)) g"
  "\<exists>es. trace (snd (eg25_err_shutdown_noclose d)) = trace d @ es @ [Regulator_disable]"
proof -
  let ?pk = "mpwr_eg25_get_pwrkey_gpio d"
  let ?d7 = "gpiod_direction_input Dtr_gpio
              (gpiod_direction_input Host_ready_gpio
                (gpiod_direction_input ?pk
                  (gpiod_direction_input Sleep_gpio
                    (gpiod_direction_input Reset_gpio
                      (gpiod_direction_input Enable_gpio
                        (emit (Dev_warn ''Forcibly cutting off power, data loss may occur.'') d))))))"
  have r: "eg25_err_shutdown_noclose d = (- ENODEV, regulator_disable ?d7)"
    by (simp add: eg25_err_shutdown_noclose_def Let_def)
  show "fst (eg25_err_shutdown_noclose d) = - ENODEV" by (simp add: r)
  show "flags (snd (eg25_err_shutdown_noclose d)) = flags d"
    by (simp add: r regulator_frame gpiod_frame op_frame)
  show "\<not> regulator_enabled (snd (eg25_err_shutdown_noclose d))"
    by (simp add: r regulator_frame)
  show "notified a (snd (eg25_err_shutdown_noclose d)) = notified a d"
    by (simp add: r notified_frame gpiod_frame)
  have u: "undriven (regulator_disable x) g = undriven x g" for x g
    by (simp add: undriven_def regulator_frame)
  show "\<forall>g \<in> set (control_lines d). undriven (snd (eg25_err_shutdown_noclose d)) g"
    by (simp add: r u control_lines_def undriven_input)
  have t: "\<exists>es. trace (gpiod_direction_input g x) = trace x @ es" for g x
    by (simp add: gpiod_direction_input_def op_frame)
  have t2: "\<exists>es. trace (gpiod_direction_input g x) = trace d @ es"
    if "\<exists>es. trace x = trace d @ es" for g x
    using that t [of g x] by auto
  have "\<exists>es. trace ?d7 = trace d @ es"
    by (intro t2) (simp add: op_frame)
  then show "\<exists>es. trace (snd (eg25_err_shutdown_noclose d)) = trace d @ es @ [Regulator_disable]"
    by (auto simp add: r regulator_frame)
qed

lemma flag_frame:
  "flags (set_bit_flag f d) = insert f (flags d)" "wired (set_bit_flag f d) = wired d"
  "status_pwrkey_multiplexed (set_bit_flag f d) = status_pwrkey_multiplexed d"
  "flags (sysfs_notify a d) = flags d" "wired (sysfs_notify a d) = wired d"
  "status_pwrkey_multiplexed (sysfs_notify a d) = status_pwrkey_multiplexed d"
  by (simp_all add: set_bit_flag_def sysfs_notify_def op_frame)

lemma eg25_power_up_no_wakeup:
  assumes nofb: "\<not> test_bit_flag MPWR_F_FASTBOOT_POWERUP d"
    and reg: "0 \<le> env_regulator_enable env"
    and wk: "wired d Wakeup_gpio"
    and never: "\<forall>t. now d + 250 \<le> t \<and> t < now d + 250 + 10000 \<longrightarrow> \<not> env_wakeup env t"
  shows "fst (mpwr_eg25_power_up env d) = - ENODEV"
    and "flags (snd (mpwr_eg25_power_up env d)) = insert MPWR_F_KILLSWITCHED (flags d)"
    and "wired (snd (mpwr_eg25_power_up env d)) = wired d"
    and "\<not> regulator_enabled (snd (mpwr_eg25_power_up env d))"
    and "\<forall>g \<in> set (control_lines d). undriven (snd (mpwr_eg25_power_up env d)) g"
    and "notified a (snd (mpwr_eg25_power_up env d))
         = notified a d + (if a = ''killswitched'' \<and> MPWR_F_KILLSWITCHED \<notin> flags d then 1 else 0)"
    and "last (trace (snd (mpwr_eg25_power_up env d))) = Regulator_disable"
proof -
  let ?d2 = "if regulator_enabled d then
      emit (Dev_warn ''regulator was already enabled during powerup'') d else d"
  let ?d3 = "regulator_enable (env_regulator_enable env) ?d2"
  let ?d14 = "gpiod_direction_input Status_gpio (eg25_pwrkey_pulse (eg25_drive_defaults False ?d3))"
  let ?r = "eg25_wait_powerup env (now ?d14) False
      (if wired ?d14 Status_gpio then False else True) ?d14"
  let ?d16 = "emit (Dev_err ''The modem looks kill-switched'') (snd ?r)"
  let ?d18 = "if \<not> MPWR_F_KILLSWITCHED \<in> flags ?d16
      then sysfs_notify ''killswitched'' (set_bit_flag MPWR_F_KILLSWITCHED ?d16)
      else set_bit_flag MPWR_F_KILLSWITCHED ?d16"
  have fb: "MPWR_F_FASTBOOT_POWERUP \<notin> flags d" using nofb by (simp add: test_bit_flag_def)
  have tc: "test_and_clear_bit_flag MPWR_F_FASTBOOT_POWERUP d = (False, d)"
    using fb by (simp add: test_and_clear_bit_flag_def clear_bit_flag_def)
  have nr: "(env_regulator_enable env < 0) = False" using reg by simp
  have f2: "flags ?d2 = flags d" "wired ?d2 = wired d" "now ?d2 = now d"
    "status_pwrkey_multiplexed ?d2 = status_pwrkey_multiplexed d" "notified a ?d2 = notified a d"
    by (simp_all add: op_frame notified_frame)
  have f3: "flags ?d3 = flags d" "wired ?d3 = wired d" "now ?d3 = now d"
    "status_pwrkey_multiplexed ?d3 = status_pwrkey_multiplexed d" "notified a ?d3 = notified a d"
    using f2 by (simp_all only: regulator_frame notified_frame)
  have f14: "flags ?d14 = flags d" "wired ?d14 = wired d" "now ?d14 = now d + 250"
    "status_pwrkey_multiplexed ?d14 = status_pwrkey_multiplexed d"
    "notified a ?d14 = notified a d"
    using f3 by (simp_all only: gpiod_frame pwrkey_pulse_frame drive_defaults_frame)
  have wk14: "wired ?d14 Wakeup_gpio = True" using wk by (simp only: f14(2))
  have win: "\<forall>t. now ?d14 \<le> t \<and> t < now ?d14 + 10000 \<longrightarrow> \<not> env_wakeup env t"
    using never by (simp only: f14(3))
  have nw: "fst (fst ?r) = False"
    using wait_powerup_no_wakeup [OF win, of False ?d14] by simp
  note fr = wait_powerup_frame [of env "now ?d14" False
      "if wired ?d14 Status_gpio then False else True" ?d14 a]
  have f16: "flags ?d16 = flags d" "wired ?d16 = wired d"
    "status_pwrkey_multiplexed ?d16 = status_pwrkey_multiplexed d"
    "notified a ?d16 = notified a d"
    using fr f14 by (simp_all only: op_frame notified_frame)
  have f18: "flags ?d18 = insert MPWR_F_KILLSWITCHED (flags d)" "wired ?d18 = wired d"
    "status_pwrkey_multiplexed ?d18 = status_pwrkey_multiplexed d"
    "notified a ?d18 = notified a d
       + (if a = ''killswitched'' \<and> MPWR_F_KILLSWITCHED \<notin> flags d then 1 else 0)"
    using f16 by (auto simp only: flag_frame notified_frame split: if_splits)
  have run: "mpwr_eg25_power_up env d = eg25_err_shutdown_noclose ?d18"
    unfolding mpwr_eg25_power_up_def
    by (simp only: tc prod.case Let_def nr if_False wk14 if_True case_prod_beta nw
        not_False_eq_True test_and_set_bit_flag_def fst_conv snd_conv)
  have cl: "control_lines ?d18 = control_lines d"
    unfolding control_lines_def mpwr_eg25_get_pwrkey_gpio_def by (simp only: f18(3))
  note post = err_shutdown_noclose_post [where d = ?d18]
  show "fst (mpwr_eg25_power_up env d) = - ENODEV" unfolding run by (rule post(1))
  show "flags (snd (mpwr_eg25_power_up env d)) = insert MPWR_F_KILLSWITCHED (flags d)"
    unfolding run using post(2) f18(1) by (rule trans)
  show "\<not> regulator_enabled (snd (mpwr_eg25_power_up env d))"
    unfolding run by (rule post(3))
  show "\<forall>g \<in> set (control_lines d). undriven (snd (mpwr_eg25_power_up env d)) g"
    unfolding run using post(5) unfolding cl .
  show "notified a (snd (mpwr_eg25_power_up env d))
         = notified a d + (if a = ''killswitched'' \<and> MPWR_F_KILLSWITCHED \<notin> flags d then 1 else 0)"
    unfolding run using post(4) f18(4) by (rule trans)
  have "wired (snd (eg25_err_shutdown_noclose ?d18)) = wired ?d18"
    by (simp only: eg25_err_shutdown_noclose_def Let_def snd_conv regulator_frame gpiod_frame
        op_frame)
  then show "wired (snd (mpwr_eg25_power_up env d)) = wired d"
    unfolding run using f18(2) by (rule trans)
  show "last (trace (snd (mpwr_eg25_power_up env d))) = Regulator_disable"
    unfolding run using post(6) by (auto simp add: append_assoc [symmetric] simp del: append_assoc)
qed

lemma power_up_failed:
  assumes "\<not> test_bit_flag MPWR_F_POWERED d" "fst (mpwr_eg25_power_up env d) \<noteq> 0"
  shows "mpwr_power_up (mpwr_eg25_variant env pdn) d
         = emit (Dev_err ''power up failed'') (snd (mpwr_eg25_power_up env d))"
  using assms by (simp add: mpwr_power_up_def mpwr_eg25_variant_def case_prod_beta)




lemma wd_timer_latched:
  assumes "test_bit_flag MPWR_F_KILLSWITCHED d"
  shows "notified ''killswitched'' (mpwr_wd_timer_fn var level d) = notified ''killswitched'' d"
    and "test_bit_flag MPWR_F_KILLSWITCHED (mpwr_wd_timer_fn var level d)"
  using assms
  by (simp_all add: mpwr_wd_timer_fn_def Let_def test_and_set_bit_flag_def test_bit_flag_def
      notified_def emit_def set_bit_flag_def)

lemma wd_timer_latches:
  assumes "monitor_wakeup var" "test_bit_flag MPWR_F_POWERED d"
    "\<not> test_bit_flag MPWR_F_KILLSWITCHED d" "\<not> (wired d Wakeup_gpio \<and> level)"
    "int (now d) - int (last_wakeup d) > 5000"
  shows "notified ''killswitched'' (mpwr_wd_timer_fn var level d) = notified ''killswitched'' d + 1"
    and "test_bit_flag MPWR_F_KILLSWITCHED (mpwr_wd_timer_fn var level d)"
  using assms
  by (simp_all add: mpwr_wd_timer_fn_def Let_def test_and_set_bit_flag_def test_bit_flag_def
      notified_def emit_def set_bit_flag_def sysfs_notify_def)

text \<open>
  C9. The kill-switch flag is latched at two places, the watchdog timer and the eg25
  power-up, both with \<^verbatim>\<open>test_and_set_bit\<close>, and a sysfs notification on
  \<^verbatim>\<open>killswitched\<close> is sent only when the bit was clear. A watchdog tick with the flag
  already set sends none. Two ticks in a row that both find the wakeup line inactive for
  more than 5 s, starting with the flag clear, send exactly one (the second tick may run at
  any later time). A failed power-up with the flag already set sends none, and two failed
  power-ups in a row starting with the flag clear send exactly one.
\<close>

theorem killswitch_notified_once:
  "(test_bit_flag MPWR_F_KILLSWITCHED d \<longrightarrow>
      notified ''killswitched'' (mpwr_wd_timer_fn var level d) = notified ''killswitched'' d
      \<and> test_bit_flag MPWR_F_KILLSWITCHED (mpwr_wd_timer_fn var level d))
   \<and> (monitor_wakeup var \<and> test_bit_flag MPWR_F_POWERED d
        \<and> \<not> test_bit_flag MPWR_F_KILLSWITCHED d \<and> \<not> (wired d Wakeup_gpio \<and> level)
        \<and> int (now d) - int (last_wakeup d) > 5000 \<longrightarrow>
      notified ''killswitched'' (mpwr_wd_timer_fn var level d) = notified ''killswitched'' d + 1
      \<and> notified ''killswitched''
           (mpwr_wd_timer_fn var level2 ((mpwr_wd_timer_fn var level d)\<lparr>now := t2\<rparr>))
         = notified ''killswitched'' d + 1)
   \<and> (test_bit_flag MPWR_F_KILLSWITCHED d \<and> \<not> test_bit_flag MPWR_F_POWERED d
        \<and> \<not> test_bit_flag MPWR_F_FASTBOOT_POWERUP d \<and> 0 \<le> env_regulator_enable env
        \<and> wired d Wakeup_gpio
        \<and> (\<forall>t. now d + 250 \<le> t \<and> t < now d + 250 + 10000 \<longrightarrow> \<not> env_wakeup env t) \<longrightarrow>
      notified ''killswitched'' (mpwr_power_up (mpwr_eg25_variant env pdn) d)
        = notified ''killswitched'' d)
   \<and> (\<not> test_bit_flag MPWR_F_KILLSWITCHED d \<and> \<not> test_bit_flag MPWR_F_POWERED d
        \<and> \<not> test_bit_flag MPWR_F_FASTBOOT_POWERUP d \<and> 0 \<le> env_regulator_enable env
        \<and> 0 \<le> env_regulator_enable env2 \<and> wired d Wakeup_gpio
        \<and> (\<forall>t. \<not> env_wakeup env t) \<and> (\<forall>t. \<not> env_wakeup env2 t) \<longrightarrow>
      notified ''killswitched''
        (mpwr_power_up (mpwr_eg25_variant env2 pdn)
           (mpwr_power_up (mpwr_eg25_variant env pdn) d))
        = notified ''killswitched'' d + 1)"
proof -
  have p2: "monitor_wakeup var \<and> test_bit_flag MPWR_F_POWERED d
        \<and> \<not> test_bit_flag MPWR_F_KILLSWITCHED d \<and> \<not> (wired d Wakeup_gpio \<and> level)
        \<and> int (now d) - int (last_wakeup d) > 5000 \<longrightarrow>
      notified ''killswitched'' (mpwr_wd_timer_fn var level d) = notified ''killswitched'' d + 1
      \<and> notified ''killswitched''
           (mpwr_wd_timer_fn var level2 ((mpwr_wd_timer_fn var level d)\<lparr>now := t2\<rparr>))
         = notified ''killswitched'' d + 1"
  proof (intro impI, elim conjE)
    assume h: "monitor_wakeup var" "test_bit_flag MPWR_F_POWERED d"
      "\<not> test_bit_flag MPWR_F_KILLSWITCHED d" "\<not> (wired d Wakeup_gpio \<and> level)"
      "int (now d) - int (last_wakeup d) > 5000"
    note a = wd_timer_latches [OF h]
    let ?d1 = "(mpwr_wd_timer_fn var level d)\<lparr>now := t2\<rparr>"
    have k: "test_bit_flag MPWR_F_KILLSWITCHED ?d1" using a(2) by (simp add: test_bit_flag_def)
    have n: "notified ''killswitched'' ?d1 = notified ''killswitched'' (mpwr_wd_timer_fn var level d)"
      by (simp add: notified_def)
    show "notified ''killswitched'' (mpwr_wd_timer_fn var level d) = notified ''killswitched'' d + 1
      \<and> notified ''killswitched'' (mpwr_wd_timer_fn var level2 ?d1)
         = notified ''killswitched'' d + 1"
      using a(1) wd_timer_latched(1) [OF k, of var level2] n by simp
  qed
  have pu: "notified ''killswitched'' (mpwr_power_up (mpwr_eg25_variant e pdn) x)
        = notified ''killswitched'' x + (if MPWR_F_KILLSWITCHED \<in> flags x then 0 else 1)
      \<and> flags (mpwr_power_up (mpwr_eg25_variant e pdn) x) = insert MPWR_F_KILLSWITCHED (flags x)
      \<and> wired (mpwr_power_up (mpwr_eg25_variant e pdn) x) = wired x"
    if "\<not> test_bit_flag MPWR_F_POWERED x" "\<not> test_bit_flag MPWR_F_FASTBOOT_POWERUP x"
      "0 \<le> env_regulator_enable e" "wired x Wakeup_gpio"
      "\<forall>t. now x + 250 \<le> t \<and> t < now x + 250 + 10000 \<longrightarrow> \<not> env_wakeup e t" for e x
  proof -
    note h = eg25_power_up_no_wakeup [OF that(2-5)]
    have nz: "fst (mpwr_eg25_power_up e x) \<noteq> 0" using h(1) by (simp add: ENODEV_def)
    show ?thesis
      using h(2,3) h(6) [of "''killswitched''"]
      by (simp add: power_up_failed [OF that(1) nz] op_frame notified_frame)
  qed
  have p3: "test_bit_flag MPWR_F_KILLSWITCHED d \<and> \<not> test_bit_flag MPWR_F_POWERED d
        \<and> \<not> test_bit_flag MPWR_F_FASTBOOT_POWERUP d \<and> 0 \<le> env_regulator_enable env
        \<and> wired d Wakeup_gpio
        \<and> (\<forall>t. now d + 250 \<le> t \<and> t < now d + 250 + 10000 \<longrightarrow> \<not> env_wakeup env t) \<longrightarrow>
      notified ''killswitched'' (mpwr_power_up (mpwr_eg25_variant env pdn) d)
        = notified ''killswitched'' d"
    using pu [of d env] by (simp add: test_bit_flag_def)
  have p4: "\<not> test_bit_flag MPWR_F_KILLSWITCHED d \<and> \<not> test_bit_flag MPWR_F_POWERED d
        \<and> \<not> test_bit_flag MPWR_F_FASTBOOT_POWERUP d \<and> 0 \<le> env_regulator_enable env
        \<and> 0 \<le> env_regulator_enable env2 \<and> wired d Wakeup_gpio
        \<and> (\<forall>t. \<not> env_wakeup env t) \<and> (\<forall>t. \<not> env_wakeup env2 t) \<longrightarrow>
      notified ''killswitched''
        (mpwr_power_up (mpwr_eg25_variant env2 pdn)
           (mpwr_power_up (mpwr_eg25_variant env pdn) d))
        = notified ''killswitched'' d + 1"
  proof (intro impI, elim conjE)
    assume h: "\<not> test_bit_flag MPWR_F_KILLSWITCHED d" "\<not> test_bit_flag MPWR_F_POWERED d"
      "\<not> test_bit_flag MPWR_F_FASTBOOT_POWERUP d" "0 \<le> env_regulator_enable env"
      "0 \<le> env_regulator_enable env2" "wired d Wakeup_gpio"
      "\<forall>t. \<not> env_wakeup env t" "\<forall>t. \<not> env_wakeup env2 t"
    let ?d1 = "mpwr_power_up (mpwr_eg25_variant env pdn) d"
    have a: "notified ''killswitched'' ?d1 = notified ''killswitched'' d + 1"
      "flags ?d1 = insert MPWR_F_KILLSWITCHED (flags d)" "wired ?d1 = wired d"
      using pu [OF h(2) h(3) h(4) h(6)] h(1) h(7) by (simp_all add: test_bit_flag_def)
    have b: "\<not> test_bit_flag MPWR_F_POWERED ?d1" "\<not> test_bit_flag MPWR_F_FASTBOOT_POWERUP ?d1"
      "wired ?d1 Wakeup_gpio"
      using h(2,3,6) a(2,3) by (simp_all add: test_bit_flag_def)
    show "notified ''killswitched'' (mpwr_power_up (mpwr_eg25_variant env2 pdn) ?d1)
        = notified ''killswitched'' d + 1"
      using pu [OF b(1) b(2) h(5) b(3)] h(8) a(1,2) by simp
  qed
  show ?thesis
    using wd_timer_latched [of d var level] p2 p3 p4 by blast
qed

theorem killswitch_notified_once_witness:
  "notified ''killswitched''
     (mpwr_wd_timer_fn (mpwr_eg25_variant quiet_env no_power_down) False
        ((mpwr_wd_timer_fn (mpwr_eg25_variant quiet_env no_power_down) False
            (powered_dev\<lparr>now := 6000\<rparr>))\<lparr>now := 7000\<rparr>)) = 1
   \<and> notified ''killswitched''
       (mpwr_power_up (mpwr_eg25_variant quiet_env no_power_down)
          (mpwr_power_up (mpwr_eg25_variant quiet_env no_power_down) eg25_probed)) = 1"
proof -
  let ?v = "mpwr_eg25_variant quiet_env no_power_down"
  let ?p = "powered_dev\<lparr>now := 6000\<rparr>"
  have a: "monitor_wakeup ?v" "test_bit_flag MPWR_F_POWERED ?p"
    "\<not> test_bit_flag MPWR_F_KILLSWITCHED ?p" "\<not> (wired ?p Wakeup_gpio \<and> False)"
    "int (now ?p) - int (last_wakeup ?p) > 5000" "notified ''killswitched'' ?p = 0"
    by (simp_all add: mpwr_eg25_variant_def powered_dev_def eg25_probed_def test_bit_flag_def
        notified_def)
  have b: "\<not> test_bit_flag MPWR_F_KILLSWITCHED eg25_probed"
    "\<not> test_bit_flag MPWR_F_POWERED eg25_probed"
    "\<not> test_bit_flag MPWR_F_FASTBOOT_POWERUP eg25_probed" "0 \<le> env_regulator_enable quiet_env"
    "wired eg25_probed Wakeup_gpio" "\<forall>t. \<not> env_wakeup quiet_env t"
    "notified ''killswitched'' eg25_probed = 0"
    by (simp_all add: eg25_probed_def quiet_env_def test_bit_flag_def notified_def)
  note t1 = killswitch_notified_once [of ?p ?v False False 7000 quiet_env no_power_down quiet_env,
      THEN conjunct2, THEN conjunct1]
  note t2 = killswitch_notified_once [of eg25_probed ?v False False 7000 quiet_env no_power_down
      quiet_env, THEN conjunct2, THEN conjunct2, THEN conjunct2]
  show ?thesis using t1 t2 a b by simp
qed

text \<open>
  C7. With the device powered, \<^verbatim>\<open>mpwr_power_up\<close> returns the device unchanged: no
  flag is altered, nothing is added to the trace, and no variant sequence runs. The path
  of a request, \<^verbatim>\<open>mpwr_request_power_change\<close> followed by the work handler, sets the
  busy flag when the request is made and clears it when the request has been handled;
  what remains is a device with the powered flag set, the busy flag clear, no request
  pending, and a trace extended by the two notifications on \<^verbatim>\<open>is_busy\<close> and the
  queueing of the work: no GPIO or regulator operation.
\<close>

theorem power_up_when_on:
  assumes "test_bit_flag MPWR_F_POWERED d"
  shows "mpwr_power_up var d = d
     \<and> test_bit_flag MPWR_F_POWER_CHANGE_INPROGRESS (mpwr_request_power_change d MPWR_REQ_PWUP)
     \<and> mpwr_work_handler var (mpwr_request_power_change d MPWR_REQ_PWUP)
         = d\<lparr>flags := flags d - {MPWR_F_POWER_CHANGE_INPROGRESS},
              last_request := MPWR_REQ_NONE,
              trace := trace d @ [Sysfs_notify ''is_busy'', Queue_work, Sysfs_notify ''is_busy'']\<rparr>
     \<and> test_bit_flag MPWR_F_POWERED
          (mpwr_work_handler var (mpwr_request_power_change d MPWR_REQ_PWUP))
     \<and> \<not> test_bit_flag MPWR_F_POWER_CHANGE_INPROGRESS
          (mpwr_work_handler var (mpwr_request_power_change d MPWR_REQ_PWUP))"
  using assms
  by (simp add: mpwr_power_up_def mpwr_request_power_change_def mpwr_work_handler_def Let_def
      test_bit_flag_def set_bit_flag_def clear_bit_flag_def sysfs_notify_def emit_def)

theorem power_up_when_on_witness:
  "mpwr_power_up (mpwr_eg25_variant quiet_env no_power_down) powered_dev = powered_dev
   \<and> trace (mpwr_work_handler (mpwr_eg25_variant quiet_env no_power_down)
        (mpwr_request_power_change powered_dev MPWR_REQ_PWUP))
      = [Sysfs_notify ''is_busy'', Queue_work, Sysfs_notify ''is_busy'']"
  using power_up_when_on [of powered_dev "mpwr_eg25_variant quiet_env no_power_down"]
  by (simp add: test_bit_flag_def powered_dev_def eg25_probed_def)

text \<open>
  The request does alter the busy flag: on a powered device with the busy flag clear,
  \<^verbatim>\<open>mpwr_request_power_change\<close> for a power-up sets it and notifies \<^verbatim>\<open>is_busy\<close>.
\<close>

theorem request_raises_busy_counterexample:
  "test_bit_flag MPWR_F_POWERED powered_dev
   \<and> \<not> test_bit_flag MPWR_F_POWER_CHANGE_INPROGRESS powered_dev
   \<and> test_bit_flag MPWR_F_POWER_CHANGE_INPROGRESS
        (mpwr_request_power_change powered_dev MPWR_REQ_PWUP)
   \<and> notified ''is_busy'' (mpwr_request_power_change powered_dev MPWR_REQ_PWUP) = 1"
  by (simp add: mpwr_request_power_change_def Let_def test_bit_flag_def set_bit_flag_def
      sysfs_notify_def emit_def powered_dev_def eg25_probed_def notified_def)

end
